theory Spec2Isabelle
  imports Main "HOL-Library.Word"
begin

unbundle bit_operations_syntax

section \<open>The environment of \<^verbatim>\<open>input.c\<close>\<close>

type_synonym byte = "8 word"

text \<open>
  A system call either fails (it returns \<open>-1\<close> and sets \<open>errno\<close>: \<open>Inl errno\<close>) or succeeds
  (\<open>Inr\<close> with what the kernel hands back).
\<close>

type_synonym errno = int

subsection \<open>Constants of \<^verbatim>\<open><linux/input.h>\<close>\<close>

text \<open>
  The kernel header is not part of the module. The functions below take its constants as a
  parameter; \<open>linux_input_h\<close> holds the values the kernel header gives them.
\<close>

record input_h =
  EV_MAX :: nat
  KEY_MAX :: nat
  EV_ABS :: nat
  EV_SW :: int
  EV_LED :: int
  EV_SND :: int
  SW_MAX :: nat
  LED_MAX :: nat
  SND_MAX :: nat
  EV_FF :: "16 word"
  FF_GAIN :: "16 word"
  FF_AUTOCENTER :: "16 word"

definition linux_input_h :: input_h where
  "linux_input_h =
     \<lparr>EV_MAX = 0x1f, KEY_MAX = 0x2ff, EV_ABS = 0x03,
      EV_SW = 0x05, EV_LED = 0x11, EV_SND = 0x12,
      SW_MAX = 0x0f, LED_MAX = 0x0f, SND_MAX = 0x07,
      EV_FF = 0x15, FF_GAIN = 0x60, FF_AUTOCENTER = 0x61\<rparr>"

subsection \<open>Kernel structures and their memory image\<close>

text \<open>
  \<^verbatim>\<open>struct input_event { struct timeval time; __u16 type; __u16 code; __s32 value; }\<close>,
  \<^verbatim>\<open>struct input_absinfo\<close> and \<^verbatim>\<open>struct input_id\<close>, with the layout of a little-endian
  64-bit Linux: two 8-byte time fields at offsets 0 and 8, \<open>type\<close> at 16, \<open>code\<close> at 18,
  \<open>value\<close> at 20, 24 bytes in all.
\<close>

record input_event =
  ie_sec :: "64 word"
  ie_usec :: "64 word"
  ie_type :: "16 word"
  ie_code :: "16 word"
  ie_value :: "32 word"

record input_absinfo =
  abs_value :: "32 word"
  abs_minimum :: "32 word"
  abs_maximum :: "32 word"
  abs_fuzz :: "32 word"
  abs_flat :: "32 word"
  abs_resolution :: "32 word"

record input_id =
  bustype :: "16 word"
  vendor :: "16 word"
  product :: "16 word"
  version :: "16 word"

primrec le_bytes :: "nat \<Rightarrow> 'a::len word \<Rightarrow> byte list" where
  "le_bytes 0 w = []"
| "le_bytes (Suc n) w = ucast w # le_bytes n (drop_bit 8 w)"

primrec le_word :: "byte list \<Rightarrow> 'a::len word" where
  "le_word [] = 0"
| "le_word (b # bs) = ucast b OR push_bit 8 (le_word bs)"

definition sizeof_input_event :: nat where
  "sizeof_input_event = 24"

definition input_event_bytes :: "input_event \<Rightarrow> byte list" where
  "input_event_bytes ev =
     le_bytes 8 (ie_sec ev) @ le_bytes 8 (ie_usec ev) @
     le_bytes 2 (ie_type ev) @ le_bytes 2 (ie_code ev) @ le_bytes 4 (ie_value ev)"

definition input_event_of_bytes :: "byte list \<Rightarrow> input_event" where
  "input_event_of_bytes m =
     \<lparr>ie_sec = le_word (take 8 m), ie_usec = le_word (take 8 (drop 8 m)),
      ie_type = le_word (take 2 (drop 16 m)), ie_code = le_word (take 2 (drop 18 m)),
      ie_value = le_word (take 4 (drop 20 m))\<rparr>"

text \<open>
  Memory is a list of bytes starting at some address. \<open>store off src m\<close> is \<open>m\<close> after the
  bytes \<open>src\<close> were written at offset \<open>off\<close>.
\<close>

definition store :: "nat \<Rightarrow> byte list \<Rightarrow> byte list \<Rightarrow> byte list" where
  "store off src m = take off m @ src @ drop (off + length src) m"

text \<open>
  An \<^verbatim>\<open>ioctl\<close> that reads from the kernel into a buffer, called with a size of \<open>len\<close> bytes:
  on failure the buffer is untouched, on success the kernel has copied at most \<open>len\<close> bytes
  to its start.
\<close>

definition ioctl_out :: "errno + byte list \<Rightarrow> nat \<Rightarrow> byte list \<Rightarrow> byte list" where
  "ioctl_out reply len m =
     (case reply of Inl e \<Rightarrow> m | Inr bs \<Rightarrow> store 0 (take len bs) m)"

text \<open>A C string: the bytes up to the first NUL.\<close>

definition c_string :: "byte list \<Rightarrow> byte list" where
  "c_string m = takeWhile (\<lambda>b. b \<noteq> 0) m"

subsection \<open>The device behind the descriptor\<close>

text \<open>
  What the kernel answers on the open descriptor: the bytes a \<^verbatim>\<open>read\<close> has pending (or its
  failure), the outcome of a \<^verbatim>\<open>write\<close> of given bytes, and the reply to each \<^verbatim>\<open>ioctl\<close>
  request (\<open>EVIOCGBIT ev len\<close> is the request built by the macro of that name).
\<close>

record evdev =
  read_data :: "errno + byte list"
  write_reply :: "byte list \<Rightarrow> errno + nat"
  EVIOCGBIT :: "nat \<Rightarrow> nat \<Rightarrow> errno + byte list"
  EVIOCGABS :: "nat \<Rightarrow> errno + input_absinfo"
  EVIOCGID :: "errno + input_id"
  EVIOCGNAME :: "nat \<Rightarrow> errno + byte list"
  EVIOCGPHYS :: "nat \<Rightarrow> errno + byte list"
  EVIOCGVERSION :: "errno + 32 word"
  EVIOCSREP :: "32 word \<Rightarrow> 32 word \<Rightarrow> errno + unit"
  EVIOCGRAB :: "32 word \<Rightarrow> errno + unit"
  EVIOCGLED :: "nat \<Rightarrow> errno + byte list"
  EVIOCGSW :: "nat \<Rightarrow> errno + byte list"
  EVIOCGSND :: "nat \<Rightarrow> errno + byte list"

text \<open>\<^verbatim>\<open>read(fd, buf, count)\<close> delivers at most \<open>count\<close> of the pending bytes.\<close>

definition sys_read :: "evdev \<Rightarrow> nat \<Rightarrow> errno + byte list" where
  "sys_read dev count =
     (case read_data dev of Inl e \<Rightarrow> Inl e | Inr bs \<Rightarrow> Inr (take count bs))"

subsection \<open>Python values\<close>

datatype pyobj =
    PyNone
  | PyLong int
  | PyStr "byte list"
  | PyTuple "pyobj list"
  | PyList "pyobj list"
  | PyDict "(pyobj \<times> pyobj) list"

text \<open>
  \<open>IOError\<close>: \<^verbatim>\<open>PyErr_SetFromErrno(PyExc_IOError); return NULL;\<close> \<open>SystemError\<close>: a
  \<^verbatim>\<open>return NULL\<close> with no exception set, which the interpreter reports under that name.
  \<open>UnicodeDecodeError\<close>: raised by \<^verbatim>\<open>Py_BuildValue\<close> when a C string given for the format
  \<^verbatim>\<open>s\<close> is not UTF-8.
\<close>

datatype pyerr = IOError errno | SystemError | UnicodeDecodeError

text \<open>
  The module is built for Python 3 (\<^verbatim>\<open>PyInit__input\<close>), where the format \<^verbatim>\<open>s\<close> decodes the
  C string as UTF-8, strictly: \<open>utf8_len\<close> is the length of the sequence that a lead byte
  opens (0 for a byte that opens none), \<open>utf8_tail\<close> checks the bytes that follow it (no
  overlong form, no surrogate, nothing above U+10FFFF). A \<open>PyStr\<close> holds the text as its
  UTF-8 bytes.
\<close>

definition utf8_len :: "byte \<Rightarrow> nat" where
  "utf8_len b =
     (if b < 0x80 then 1
      else if 0xC2 \<le> b \<and> b \<le> 0xDF then 2
      else if 0xE0 \<le> b \<and> b \<le> 0xEF then 3
      else if 0xF0 \<le> b \<and> b \<le> 0xF4 then 4
      else 0)"

definition utf8_cont :: "byte \<Rightarrow> bool" where
  "utf8_cont c = (0x80 \<le> c \<and> c \<le> 0xBF)"

definition utf8_tail :: "byte \<Rightarrow> byte list \<Rightarrow> bool" where
  "utf8_tail b cs =
     (case cs of
        [] \<Rightarrow> True
      | c # cs' \<Rightarrow>
          (if b = 0xE0 then 0xA0 \<le> c \<and> c \<le> 0xBF
           else if b = 0xED then 0x80 \<le> c \<and> c \<le> 0x9F
           else if b = 0xF0 then 0x90 \<le> c \<and> c \<le> 0xBF
           else if b = 0xF4 then 0x80 \<le> c \<and> c \<le> 0x8F
           else utf8_cont c)
          \<and> list_all utf8_cont cs')"

function utf8_valid :: "byte list \<Rightarrow> bool" where
  "utf8_valid [] = True"
| "utf8_valid (b # bs) =
     (let n = utf8_len b
      in 0 < n \<and> n - 1 \<le> length bs \<and> utf8_tail b (take (n - 1) bs)
         \<and> utf8_valid (drop (n - 1) bs))"
  by pat_completeness auto
termination
  by (relation "measure length") auto

definition PyUnicode_FromString :: "byte list \<Rightarrow> pyerr + pyobj" where
  "PyUnicode_FromString m =
     (if utf8_valid (c_string m) then Inr (PyStr (c_string m)) else Inl UnicodeDecodeError)"

text \<open>
  A dictionary keeps its items in insertion order; setting a key that is present replaces
  its value in place.
\<close>

fun PyDict_SetItem :: "(pyobj \<times> pyobj) list \<Rightarrow> pyobj \<Rightarrow> pyobj \<Rightarrow> (pyobj \<times> pyobj) list" where
  "PyDict_SetItem [] k v = [(k, v)]"
| "PyDict_SetItem ((k', v') # kvs) k v =
     (if k' = k then (k, v) # kvs else (k', v') # PyDict_SetItem kvs k v)"

section \<open>Bitmask probe\<close>

text \<open>
  \<^verbatim>\<open>int test_bit(const char* bitmask, int bit) { return bitmask[bit/8] & (1 << (bit % 8)); }\<close>

  The bitmask is the memory the pointer points to. A negative \<open>bit\<close> (negative shift count
  or negative subscript) and a subscript at or past the end of that memory have no defined
  result in C: the model returns \<open>None\<close> there. For \<open>0 \<le> bit\<close> the truncating \<open>/\<close> and \<open>%\<close>
  of C are \<open>div\<close> and \<open>mod\<close>. The byte is promoted to \<open>int\<close> (\<open>scast\<close>: \<open>char\<close> is signed
  on the platforms the module is built for) before the mask is applied.
\<close>

definition test_bit :: "byte list \<Rightarrow> int \<Rightarrow> 32 word option" where
  "test_bit bitmask n =
     (if n < 0 \<or> length bitmask \<le> nat (n div 8) then None
      else Some (scast (bitmask ! nat (n div 8)) AND push_bit (nat (n mod 8)) 1))"

text \<open>The condition \<^verbatim>\<open>if (test_bit(m, i))\<close> of the scans, where the probe is defined.\<close>

definition bit_set :: "byte list \<Rightarrow> nat \<Rightarrow> bool" where
  "bit_set m i = (case test_bit m (int i) of None \<Rightarrow> False | Some r \<Rightarrow> r \<noteq> 0)"

section \<open>Event wire codec\<close>

text \<open>
  \<^verbatim>\<open>Py_BuildValue("OOhhO", sec, usec, event.type, event.code, val)\<close>: the time fields and
  the value go through \<^verbatim>\<open>PyLong_FromLong\<close> (signed), the two \<^verbatim>\<open>__u16\<close> fields are promoted
  to \<open>int\<close> and converted as they are.
\<close>

definition py_input_event :: "input_event \<Rightarrow> pyobj" where
  "py_input_event event =
     PyTuple [PyLong (sint (ie_sec event)), PyLong (sint (ie_usec event)),
              PyLong (uint (ie_type event)), PyLong (uint (ie_code event)),
              PyLong (sint (ie_value event))]"

text \<open>
  \<open>device_read\<close>: \<open>event0\<close> is the memory of the local \<^verbatim>\<open>struct input_event event\<close> on
  entry, which the function does not initialise. Only a negative return of \<^verbatim>\<open>read\<close> is
  tested; the tuple is then built from the structure whatever the count was.
\<close>

definition device_read :: "evdev \<Rightarrow> byte list \<Rightarrow> pyerr + pyobj" where
  "device_read dev event0 =
     (case sys_read dev sizeof_input_event of
        Inl e \<Rightarrow> Inl (IOError e)
      | Inr bs \<Rightarrow> Inr (py_input_event (input_event_of_bytes (store 0 bs event0))))"

text \<open>
  \<open>device_read_many\<close>: the loop \<^verbatim>\<open>for (i = 0 ; i < nread/event_size ; i++)\<close> appends the
  tuple of \<^verbatim>\<open>event[i]\<close>; \<open>event0\<close> is the memory of the local array \<^verbatim>\<open>event[64]\<close> on entry.
\<close>

primrec append_events :: "byte list \<Rightarrow> nat list \<Rightarrow> pyobj list \<Rightarrow> pyobj list" where
  "append_events event [] event_list = event_list"
| "append_events event (i # is) event_list =
     append_events event is
       (event_list @
        [py_input_event
           (input_event_of_bytes
              (take sizeof_input_event (drop (i * sizeof_input_event) event)))])"

definition device_read_many :: "evdev \<Rightarrow> byte list \<Rightarrow> pyerr + pyobj" where
  "device_read_many dev event0 =
     (case sys_read dev (sizeof_input_event * 64) of
        Inl e \<Rightarrow> Inl (IOError e)
      | Inr bs \<Rightarrow>
          (let event = store 0 bs event0; nread = length bs
           in Inr (PyList (append_events event [0..<nread div sizeof_input_event] []))))"

text \<open>
  \<open>event_unpack\<close> (exported as \<^verbatim>\<open>unpack\<close>): copies the data into a local structure and
  ends with \<^verbatim>\<open>Py_RETURN_NONE\<close>.
\<close>

definition event_unpack :: "byte list \<Rightarrow> pyerr + pyobj" where
  "event_unpack data =
     (let event = input_event_of_bytes (take sizeof_input_event data) in Inr PyNone)"

section \<open>Capability enumerator\<close>

text \<open>
  \<^verbatim>\<open>char ev_bits[EV_MAX/8], code_bits[KEY_MAX/8]; struct input_absinfo absinfo;\<close>

  The three objects that the kernel writes to lie in one memory, the stack of the process.
  A frame gives that memory from some base address upwards (\<open>stack\<close>), what lies above the
  listed bytes (\<open>above\<close>: nothing mapped, or mapped memory holding one byte value), and the
  offsets of the three objects. A write that is longer than its object overwrites what
  lies behind the object, and a read past an object sees what is there: the other array,
  the structure, or any other stack byte. The descriptor is copied to \<open>_fd\<close> before the
  first call and \<open>fd\<close> is not read again; \<open>_fd\<close>, the loop counters and the pointers to
  Python objects are taken to live in registers.
\<close>

definition sizeof_ev_bits :: "input_h \<Rightarrow> nat" where
  "sizeof_ev_bits h = EV_MAX h div 8"

definition sizeof_code_bits :: "input_h \<Rightarrow> nat" where
  "sizeof_code_bits h = KEY_MAX h div 8"

definition sizeof_input_absinfo :: nat where
  "sizeof_input_absinfo = 24"

definition input_absinfo_bytes :: "input_absinfo \<Rightarrow> byte list" where
  "input_absinfo_bytes a =
     le_bytes 4 (abs_value a) @ le_bytes 4 (abs_minimum a) @ le_bytes 4 (abs_maximum a) @
     le_bytes 4 (abs_fuzz a) @ le_bytes 4 (abs_flat a) @ le_bytes 4 (abs_resolution a)"

definition input_absinfo_of_bytes :: "byte list \<Rightarrow> input_absinfo" where
  "input_absinfo_of_bytes m =
     \<lparr>abs_value = le_word (take 4 m), abs_minimum = le_word (take 4 (drop 4 m)),
      abs_maximum = le_word (take 4 (drop 8 m)), abs_fuzz = le_word (take 4 (drop 12 m)),
      abs_flat = le_word (take 4 (drop 16 m)), abs_resolution = le_word (take 4 (drop 20 m))\<rparr>"

record frame =
  stack :: "byte list"
  above :: "byte option"
  ev_bits_at :: nat
  code_bits_at :: nat
  absinfo_at :: nat

text \<open>
  \<open>load f p n\<close>: the bytes at offset \<open>p\<close>, at most \<open>n\<close> of them, as far as memory is mapped.
  \<open>poke f p src\<close>: the frame after \<open>src\<close> was written at offset \<open>p\<close>; \<open>None\<close> when the write
  reaches an address that is not mapped.
\<close>

definition load :: "frame \<Rightarrow> nat \<Rightarrow> nat \<Rightarrow> byte list" where
  "load f p n =
     take n (drop p (stack f) @ (case above f of None \<Rightarrow> [] | Some b \<Rightarrow> replicate n b))"

definition poke :: "frame \<Rightarrow> nat \<Rightarrow> byte list \<Rightarrow> frame option" where
  "poke f p src =
     (if src = [] \<or> p + length src \<le> length (stack f)
      then Some (f\<lparr>stack := store p src (stack f)\<rparr>)
      else case above f of
             None \<Rightarrow> None
           | Some b \<Rightarrow>
               Some (f\<lparr>stack := store p src
                                  (stack f @ replicate (p + length src - length (stack f)) b)\<rparr>))"

text \<open>
  An \<^verbatim>\<open>ioctl\<close> that reads from the kernel, called with a size of \<open>len\<close> bytes and the address
  at offset \<open>p\<close>: a failing call writes nothing, a successful one at most \<open>len\<close> bytes.
\<close>

definition ioctl_into :: "errno + byte list \<Rightarrow> nat \<Rightarrow> frame \<Rightarrow> nat \<Rightarrow> frame option" where
  "ioctl_into reply len f p =
     (case reply of Inl e \<Rightarrow> Some f | Inr bs \<Rightarrow> poke f p (take len bs))"

definition py_absinfo :: "input_absinfo \<Rightarrow> pyobj" where
  "py_absinfo a =
     PyTuple [PyLong (sint (abs_value a)), PyLong (sint (abs_minimum a)),
              PyLong (sint (abs_maximum a)), PyLong (sint (abs_fuzz a)),
              PyLong (sint (abs_flat a)), PyLong (sint (abs_resolution a))]"

text \<open>
  \<^verbatim>\<open>memset(&absinfo, 0, sizeof(absinfo)); ioctl(_fd, EVIOCGABS(ev_code), &absinfo);\<close>
  The return value of the call is not looked at; the structure is then read back.
\<close>

definition fetch_absinfo :: "evdev \<Rightarrow> nat \<Rightarrow> frame \<Rightarrow> (frame \<times> input_absinfo) option" where
  "fetch_absinfo dev ev_code f =
     (case poke f (absinfo_at f) (replicate sizeof_input_absinfo 0) of
        None \<Rightarrow> None
      | Some f1 \<Rightarrow>
          (case ioctl_into (map_sum id input_absinfo_bytes (EVIOCGABS dev ev_code))
                  sizeof_input_absinfo f1 (absinfo_at f) of
             None \<Rightarrow> None
           | Some f2 \<Rightarrow>
               Some (f2, input_absinfo_of_bytes (load f2 (absinfo_at f) sizeof_input_absinfo))))"

text \<open>
  What \<open>EVIOCGABS\<close> leaves in a cleared structure: the reply, or zeros when the call fails.
\<close>

definition absinfo_after :: "evdev \<Rightarrow> nat \<Rightarrow> input_absinfo" where
  "absinfo_after dev ev_code =
     (case EVIOCGABS dev ev_code of
        Inl e \<Rightarrow> \<lparr>abs_value = 0, abs_minimum = 0, abs_maximum = 0,
                  abs_fuzz = 0, abs_flat = 0, abs_resolution = 0\<rparr>
      | Inr a \<Rightarrow> a)"


text \<open>
  A pointer is handed to the probe as the memory at its address, as far as the indices of
  the scan reach: \<open>reach n\<close> bytes for the indices below \<open>n\<close>.
\<close>

definition reach :: "nat \<Rightarrow> nat" where
  "reach n = (n + 7) div 8"

text \<open>
  The inner loop over \<open>ev_code\<close>; \<open>None\<close> when a probe or a write leaves mapped memory.
\<close>

primrec scan_codes ::
  "input_h \<Rightarrow> evdev \<Rightarrow> nat \<Rightarrow> nat list \<Rightarrow> frame \<Rightarrow> pyobj list \<Rightarrow> (frame \<times> pyobj list) option" where
  "scan_codes h dev ev_type [] f eventcodes = Some (f, eventcodes)"
| "scan_codes h dev ev_type (ev_code # cs) f eventcodes =
     (case test_bit (load f (code_bits_at f) (reach (KEY_MAX h))) (int ev_code) of
        None \<Rightarrow> None
      | Some r \<Rightarrow>
          if r \<noteq> 0 then
            (if ev_type = EV_ABS h then
               (case fetch_absinfo dev ev_code f of
                  None \<Rightarrow> None
                | Some (f', absinfo) \<Rightarrow>
                    scan_codes h dev ev_type cs f'
                      (eventcodes @ [PyTuple [PyLong (int ev_code), py_absinfo absinfo]]))
             else scan_codes h dev ev_type cs f (eventcodes @ [PyLong (int ev_code)]))
          else scan_codes h dev ev_type cs f eventcodes)"

text \<open>
  The outer loop over \<open>ev_type\<close>. Each round probes \<open>ev_bits\<close> in the memory as the rounds
  before it left it; a round whose bit is set clears \<open>code_bits\<close>, lets the kernel write to
  it and scans it.
\<close>

primrec scan_types ::
  "input_h \<Rightarrow> evdev \<Rightarrow> nat list \<Rightarrow> frame \<Rightarrow> (pyobj \<times> pyobj) list
     \<Rightarrow> (pyobj \<times> pyobj) list option" where
  "scan_types h dev [] f capabilities = Some capabilities"
| "scan_types h dev (ev_type # ts) f capabilities =
     (case test_bit (load f (ev_bits_at f) (reach (EV_MAX h))) (int ev_type) of
        None \<Rightarrow> None
      | Some r \<Rightarrow>
          if r \<noteq> 0 then
            (case poke f (code_bits_at f) (replicate (sizeof_code_bits h) 0) of
               None \<Rightarrow> None
             | Some f1 \<Rightarrow>
                 (case ioctl_into (EVIOCGBIT dev ev_type (KEY_MAX h)) (KEY_MAX h) f1
                         (code_bits_at f) of
                    None \<Rightarrow> None
                  | Some f2 \<Rightarrow>
                      (case scan_codes h dev ev_type [0..<KEY_MAX h] f2 [] of
                         None \<Rightarrow> None
                       | Some (f3, eventcodes) \<Rightarrow>
                           scan_types h dev ts f3
                             (PyDict_SetItem capabilities (PyLong (int ev_type))
                                (PyList eventcodes)))))
          else scan_types h dev ts f capabilities)"

definition ioctl_capabilities :: "input_h \<Rightarrow> evdev \<Rightarrow> frame \<Rightarrow> (pyerr + pyobj) option" where
  "ioctl_capabilities h dev frm =
     (case poke frm (ev_bits_at frm) (replicate (sizeof_ev_bits h) 0) of
        None \<Rightarrow> None
      | Some f1 \<Rightarrow>
          (case EVIOCGBIT dev 0 (EV_MAX h) of
             Inl e \<Rightarrow> Some (Inl (IOError e))
           | Inr bs \<Rightarrow>
               (case poke f1 (ev_bits_at frm) (take (EV_MAX h) bs) of
                  None \<Rightarrow> None
                | Some f2 \<Rightarrow>
                    (case scan_types h dev [0..<EV_MAX h] f2 [] of
                       None \<Rightarrow> None
                     | Some capabilities \<Rightarrow> Some (Inr (PyDict capabilities))))))"



section \<open>Device identity and control queries\<close>

definition MAX_NAME_SIZE :: nat where
  "MAX_NAME_SIZE = 256"

text \<open>
  \<open>ioctl_devinfo\<close>: \<open>name0\<close> is the memory at the local array \<^verbatim>\<open>name\<close> on entry (not
  initialised); \<^verbatim>\<open>phys\<close> starts as zeros. Both arrays have the size the kernel is told.
  \<^verbatim>\<open>Py_BuildValue("hhhhss", ...)\<close> converts its arguments from left to right and gives up
  at the first string that does not decode.
\<close>

definition ioctl_devinfo :: "evdev \<Rightarrow> byte list \<Rightarrow> pyerr + pyobj" where
  "ioctl_devinfo dev name0 =
     (case EVIOCGID dev of
        Inl e \<Rightarrow> Inl (IOError e)
      | Inr iid \<Rightarrow>
          (case EVIOCGNAME dev MAX_NAME_SIZE of
             Inl e \<Rightarrow> Inl (IOError e)
           | Inr bs \<Rightarrow>
               (let name = store 0 (take MAX_NAME_SIZE bs) name0;
                    phys = ioctl_out (EVIOCGPHYS dev MAX_NAME_SIZE) MAX_NAME_SIZE
                             (replicate MAX_NAME_SIZE 0)
                in case PyUnicode_FromString name of
                     Inl x \<Rightarrow> Inl x
                   | Inr py_name \<Rightarrow>
                       (case PyUnicode_FromString phys of
                          Inl x \<Rightarrow> Inl x
                        | Inr py_phys \<Rightarrow>
                            Inr (PyTuple [PyLong (uint (bustype iid)), PyLong (uint (vendor iid)),
                                          PyLong (uint (product iid)), PyLong (uint (version iid)),
                                          py_name, py_phys])))))"

text \<open>
  \<open>ioctl_EVIOCSREP\<close> returns the status of the call as a Python integer;
  \<open>ioctl_EVIOCGVERSION\<close> stores the status in \<open>ret\<close> and returns the local \<open>res\<close>, whose
  value on entry is \<open>res0\<close>.
\<close>

definition ioctl_EVIOCSREP :: "evdev \<Rightarrow> 32 word \<Rightarrow> 32 word \<Rightarrow> pyerr + pyobj" where
  "ioctl_EVIOCSREP dev delay period =
     (let ret = (case EVIOCSREP dev delay period of Inl e \<Rightarrow> - 1 | Inr u \<Rightarrow> 0)
      in Inr (PyLong ret))"

definition ioctl_EVIOCGVERSION :: "evdev \<Rightarrow> 32 word \<Rightarrow> pyerr + pyobj" where
  "ioctl_EVIOCGVERSION dev res0 =
     (let res = (case EVIOCGVERSION dev of Inl e \<Rightarrow> res0 | Inr v \<Rightarrow> v)
      in Inr (PyLong (sint res)))"

text \<open>\<open>ioctl_EVIOCGRAB\<close> tests the status and raises.\<close>

definition ioctl_EVIOCGRAB :: "evdev \<Rightarrow> 32 word \<Rightarrow> pyerr + pyobj" where
  "ioctl_EVIOCGRAB dev flag =
     (case EVIOCGRAB dev flag of Inl e \<Rightarrow> Inl (IOError e) | Inr u \<Rightarrow> Inr PyNone)"

text \<open>
  \<open>get_sw_led_snd\<close>: the buffer is \<^verbatim>\<open>char bytes[(max+7)/8]\<close>, cleared, and handed to the
  \<^verbatim>\<open>ioctl\<close> of the category with its own size; the status of the call is not looked at.
  The memory of the scan is the array alone.
\<close>

primrec scan_bits :: "byte list \<Rightarrow> nat list \<Rightarrow> pyobj list \<Rightarrow> pyobj list option" where
  "scan_bits bytes [] res = Some res"
| "scan_bits bytes (i # is) res =
     (case test_bit bytes (int i) of
        None \<Rightarrow> None
      | Some r \<Rightarrow> scan_bits bytes is (if r \<noteq> 0 then res @ [PyLong (int i)] else res))"

definition get_sw_led_snd :: "input_h \<Rightarrow> evdev \<Rightarrow> int \<Rightarrow> (pyerr + pyobj) option" where
  "get_sw_led_snd h dev evtype =
     (if evtype \<noteq> EV_LED h \<and> evtype \<noteq> EV_SW h \<and> evtype \<noteq> EV_SND h
      then Some (Inl SystemError)
      else
        (let max_bit = (if evtype = EV_LED h then LED_MAX h
                    else if evtype = EV_SW h then SW_MAX h else SND_MAX h);
             sizeof_bytes = (max_bit + 7) div 8;
             reply = (if evtype = EV_LED h then EVIOCGLED dev sizeof_bytes
                      else if evtype = EV_SW h then EVIOCGSW dev sizeof_bytes
                      else EVIOCGSND dev sizeof_bytes);
             bytes = ioctl_out reply sizeof_bytes (replicate sizeof_bytes 0)
         in case scan_bits bytes [0..<max_bit] [] of
              None \<Rightarrow> None
            | Some res \<Rightarrow> Some (Inr (PyList res))))"

section \<open>Force-feedback control writes\<close>

text \<open>
  Each function declares a local \<^verbatim>\<open>struct input_event\<close>, assigns \<open>type\<close>, \<open>code\<close> and
  \<open>value\<close>, and writes the whole structure to the descriptor. The first argument after the
  device is the memory of the structure on entry. The result pairs the bytes handed to
  \<^verbatim>\<open>write\<close> with the Python result.
\<close>

definition write_event :: "evdev \<Rightarrow> byte list \<Rightarrow> byte list \<times> (pyerr + pyobj)" where
  "write_event dev m =
     (let buf = take sizeof_input_event m
      in (buf, case write_reply dev buf of
                 Inl e \<Rightarrow> Inl (IOError e)
               | Inr n \<Rightarrow> Inr PyNone))"

definition set_fields :: "16 word \<Rightarrow> 16 word \<Rightarrow> 32 word \<Rightarrow> byte list \<Rightarrow> byte list" where
  "set_fields t c v m = store 20 (le_bytes 4 v) (store 18 (le_bytes 2 c) (store 16 (le_bytes 2 t) m))"

definition set_FF_AUTOCENTER ::
  "input_h \<Rightarrow> evdev \<Rightarrow> byte list \<Rightarrow> 32 word \<Rightarrow> byte list \<times> (pyerr + pyobj)" where
  "set_FF_AUTOCENTER h dev ff_center0 autocenter_force =
     write_event dev (set_fields (EV_FF h) (FF_AUTOCENTER h) autocenter_force ff_center0)"

definition set_FF_GAIN ::
  "input_h \<Rightarrow> evdev \<Rightarrow> byte list \<Rightarrow> 32 word \<Rightarrow> byte list \<times> (pyerr + pyobj)" where
  "set_FF_GAIN h dev ff_gain0 gain =
     write_event dev (set_fields (EV_FF h) (FF_GAIN h) gain ff_gain0)"

definition play_FF_EFFECT ::
  "input_h \<Rightarrow> evdev \<Rightarrow> byte list \<Rightarrow> 32 word \<Rightarrow> 32 word \<Rightarrow> byte list \<times> (pyerr + pyobj)" where
  "play_FF_EFFECT h dev ff_play0 fxid ntimes =
     write_event dev (set_fields (EV_FF h) (ucast fxid) ntimes ff_play0)"

section \<open>Sample devices and events\<close>

text \<open>
  A descriptor whose device has gone: every call fails with \<open>ENODEV\<close> (19). The other
  samples are built from it.
\<close>

definition unplugged :: evdev where
  "unplugged =
     \<lparr>read_data = Inl 19, write_reply = (\<lambda>buf. Inl 19),
      EVIOCGBIT = (\<lambda>ev len. Inl 19), EVIOCGABS = (\<lambda>c. Inl 19), EVIOCGID = Inl 19,
      EVIOCGNAME = (\<lambda>len. Inl 19), EVIOCGPHYS = (\<lambda>len. Inl 19),
      EVIOCGVERSION = Inl 19, EVIOCSREP = (\<lambda>delay period. Inl 19),
      EVIOCGRAB = (\<lambda>flag. Inl 19), EVIOCGLED = (\<lambda>len. Inl 19),
      EVIOCGSW = (\<lambda>len. Inl 19), EVIOCGSND = (\<lambda>len. Inl 19)\<rparr>"

definition key_press :: input_event where
  "key_press = \<lparr>ie_sec = 1, ie_usec = 2, ie_type = 1, ie_code = 30, ie_value = - 1\<rparr>"

definition abs_motion :: input_event where
  "abs_motion = \<lparr>ie_sec = 1, ie_usec = 3, ie_type = 3, ie_code = 0, ie_value = 0x7FFFFFFF\<rparr>"

definition usb_keyboard :: evdev where
  "usb_keyboard =
     unplugged\<lparr>EVIOCGID := Inr \<lparr>bustype = 3, vendor = 0x46D, product = 0xC31C, version = 0x110\<rparr>,
               EVIOCGNAME := (\<lambda>len. Inr [0x4B, 0x42, 0])\<rparr>"

text \<open>
  A device with keys 304 and 305 (\<open>EV_KEY\<close>, type 1) and the axes 0 and 1 (\<open>EV_ABS\<close>, type 3),
  of which only axis 0 answers \<open>EVIOCGABS\<close>; the same device with every call inside the
  scan failing. Three frames: one where each array is followed by as much room as the
  kernel is told it has, one with \<open>code_bits\<close> directly behind \<open>ev_bits\<close>, both in mapped
  memory, and one that ends with \<open>ev_bits\<close>, with nothing mapped above it.
\<close>

definition gamepad :: evdev where
  "gamepad =
     unplugged\<lparr>EVIOCGBIT := (\<lambda>ev len.
                  if ev = 0 \<and> len = 0x1f then Inr [0x0A, 0, 0, 0, 0, 0, 0, 0]
                  else if ev = 1 then Inr (replicate 38 0 @ [0x03] @ replicate 57 0)
                  else if ev = 3 then Inr [0x03, 0, 0, 0, 0, 0, 0, 0]
                  else Inl 22),
               EVIOCGABS := (\<lambda>c.
                  if c = 0 then Inr \<lparr>abs_value = 128, abs_minimum = 0, abs_maximum = 255,
                                       abs_fuzz = 0, abs_flat = 15, abs_resolution = 0\<rparr>
                  else Inl 22)\<rparr>"

definition mute_gamepad :: evdev where
  "mute_gamepad =
     unplugged\<lparr>EVIOCGBIT := (\<lambda>ev len.
                  if ev = 0 \<and> len = 0x1f then Inr [0x0A, 0, 0, 0, 0, 0, 0, 0] else Inl 22)\<rparr>"

definition roomy_frame :: frame where
  "roomy_frame =
     \<lparr>stack = replicate 32 0x55 @ replicate 792 0, above = Some 0,
      ev_bits_at = 0, code_bits_at = 32, absinfo_at = 800\<rparr>"

definition packed_frame :: frame where
  "packed_frame =
     \<lparr>stack = replicate 128 0, above = Some 0,
      ev_bits_at = 0, code_bits_at = 3, absinfo_at = 104\<rparr>"

definition arrays_only :: frame where
  "arrays_only =
     \<lparr>stack = replicate 122 0xFF, above = None,
      ev_bits_at = 119, code_bits_at = 24, absinfo_at = 0\<rparr>"

text \<open>A device whose name is not UTF-8 and which has no physical path.\<close>

definition latin1_keyboard :: evdev where
  "latin1_keyboard = usb_keyboard\<lparr>EVIOCGNAME := (\<lambda>len. Inr [0xFF, 0xFE, 0])\<rparr>"

section \<open>Properties of the bitmask probe\<close>

lemma scast_and_mask_bit:
  fixes x :: byte
  assumes "k < 8"
  shows "((scast x :: 32 word) AND push_bit k 1 \<noteq> 0) = bit x k"
proof -
  let ?r = "(scast x :: 32 word) AND push_bit k 1"
  have at_k: "bit ?r k = bit x k"
    using assms
    by (cases "k = 7")
      (simp_all add: bit_and_iff bit_push_bit_iff bit_signed_iff bit_exp_iff min_def)
  have off_k: "\<not> bit ?r n" if "n \<noteq> k" for n
    using that by (simp add: bit_and_iff bit_push_bit_iff bit_1_iff bit_exp_iff)
  show ?thesis
  proof
    assume "?r \<noteq> 0"
    then obtain n where "bit ?r n" by (auto simp: bit_eq_iff)
    with off_k have "n = k" by blast
    with \<open>bit ?r n\<close> at_k show "bit x k" by simp
  next
    assume "bit x k"
    with at_k have "bit ?r k" by simp
    then show "?r \<noteq> 0" by auto
  qed
qed

text \<open>Where \<open>char\<close> is unsigned the byte is zero-extended; the masked value is the same.\<close>

lemma mask_of_promoted_byte:
  fixes x :: byte
  assumes "k < 8"
  shows "(scast x :: 32 word) AND push_bit k 1 = ucast x AND push_bit k 1"
proof (rule bit_eqI)
  fix n
  assume "possible_bit TYPE(32 word) n"
  show "bit ((scast x :: 32 word) AND push_bit k 1) n = bit ((ucast x :: 32 word) AND push_bit k 1) n"
  proof (cases "n = k")
    case True
    with assms show ?thesis
      by (cases "k = 7")
        (simp_all add: bit_and_iff bit_push_bit_iff bit_signed_iff bit_unsigned_iff bit_exp_iff min_def)
  next
    case False
    then show ?thesis
      by (simp add: bit_and_iff bit_push_bit_iff bit_1_iff bit_exp_iff)
  qed
qed

text \<open>
  C2. For a buffer \<open>b\<close> and a zero-based index \<open>i\<close> with \<open>i/8 < length b\<close>, the probe returns
  the byte \<open>b[i/8]\<close> masked with \<open>1 << (i % 8)\<close>, which is non-zero exactly when bit \<open>i % 8\<close>
  of that byte is set. The probe is a function of its two arguments alone and changes
  nothing.
\<close>

theorem test_bit_little_endian:
  assumes "0 \<le> i" and "nat (i div 8) < length b"
  shows "\<exists>r. test_bit b i = Some r
           \<and> r = scast (b ! nat (i div 8)) AND push_bit (nat (i mod 8)) 1
           \<and> (r \<noteq> 0) = bit (b ! nat (i div 8)) (nat (i mod 8))"
proof -
  have "nat (i mod 8) < 8" using assms(1) by simp
  from scast_and_mask_bit [OF this, of "b ! nat (i div 8)"] show ?thesis
    using assms by (simp add: test_bit_def)
qed

theorem test_bit_little_endian_witness:
  "(\<exists>r. test_bit [5] 0 = Some r \<and> r \<noteq> 0) \<and> (\<exists>r. test_bit [5] 1 = Some r \<and> r = 0)
   \<and> (\<exists>r. test_bit [5] 2 = Some r \<and> r \<noteq> 0) \<and> (\<exists>r. test_bit [5] 7 = Some r \<and> r = 0)"
  using test_bit_little_endian [of 0 "[5]"] test_bit_little_endian [of 1 "[5]"]
    test_bit_little_endian [of 2 "[5]"] test_bit_little_endian [of 7 "[5]"]
  by simp

section \<open>Properties of the event wire codec\<close>

subsection \<open>Little-endian fields\<close>

lemma length_le_bytes [simp]: "length (le_bytes n w) = n"
  by (induction n arbitrary: w) simp_all

lemma le_word_le_bytes: "(le_word (le_bytes n w) :: 'a::len word) = take_bit (8 * n) (w :: 'a word)"
proof (induction n arbitrary: w)
  case 0
  then show ?case by simp
next
  case (Suc n)
  show ?case
    apply (simp add: Suc)
    apply (rule bit_eqI)
    apply (auto simp add: bit_or_iff bit_push_bit_iff bit_take_bit_iff bit_drop_bit_eq bit_ucast_iff)
    done
qed

lemma le_word_le_bytes_id:
  "LENGTH('a::len) \<le> 8 * n \<Longrightarrow> (le_word (le_bytes n w) :: 'a word) = w"
  by (simp add: le_word_le_bytes take_bit_word_eq_self)

lemma length_input_event_bytes [simp]: "length (input_event_bytes ev) = sizeof_input_event"
  by (simp add: input_event_bytes_def sizeof_input_event_def)

lemma input_event_of_bytes_bytes [simp]:
  "input_event_of_bytes (input_event_bytes ev @ rest) = ev"
  by (simp add: input_event_of_bytes_def input_event_bytes_def le_word_le_bytes_id)

subsection \<open>Batch read\<close>

lemma append_events_map:
  "append_events event is acc =
     acc @ map (\<lambda>i. py_input_event (input_event_of_bytes
                  (take sizeof_input_event (drop (i * sizeof_input_event) event)))) is"
  by (induction "is" arbitrary: acc) simp_all

lemma chunk_of_store:
  assumes "i < length bs div n"
  shows "take n (drop (i * n) (store 0 bs m)) = take n (drop (i * n) bs)"
proof -
  have "0 < n" using assms by (cases n) simp_all
  have "Suc i \<le> length bs div n" using assms by simp
  then have "Suc i * n \<le> length bs div n * n" by (rule mult_le_mono1)
  also have "\<dots> \<le> length bs" by simp
  finally have "i * n + n \<le> length bs" by simp
  then show ?thesis by (simp add: store_def)
qed

lemma chunk_of_records:
  assumes "i < length evs"
  shows "take sizeof_input_event
           (drop (i * sizeof_input_event) (concat (map input_event_bytes evs) @ stray))
         = input_event_bytes (evs ! i)"
  using assms
proof (induction evs arbitrary: i)
  case Nil
  then show ?case by simp
next
  case (Cons ev evs)
  show ?case
  proof (cases i)
    case 0
    then show ?thesis by simp
  next
    case (Suc j)
    with Cons.prems have "j < length evs" by simp
    from Cons.IH [OF this] Suc show ?thesis by simp
  qed
qed

lemma length_concat_records:
  "length (concat (map input_event_bytes evs)) = length evs * sizeof_input_event"
  by (induction evs) simp_all

lemma device_read_many_eq:
  "device_read_many dev event0 =
     (case read_data dev of
        Inl e \<Rightarrow> Inl (IOError e)
      | Inr bs \<Rightarrow>
          Inr (PyList (map (\<lambda>i. py_input_event (input_event_of_bytes
                               (take sizeof_input_event (drop (i * sizeof_input_event) bs))))
                 [0..<length (take (sizeof_input_event * 64) bs) div sizeof_input_event])))"
proof (cases "read_data dev")
  case (Inl e)
  then show ?thesis by (simp add: device_read_many_def sys_read_def)
next
  case (Inr bs)
  let ?n = sizeof_input_event
  let ?bs = "take (?n * 64) bs"
  define bs' where "bs' = take (?n * 64) bs"
  have len: "length bs' \<le> ?n * 64" by (simp add: bs'_def)
  have "take ?n (drop (i * ?n) (store 0 bs' event0)) = take ?n (drop (i * ?n) bs)"
    if "i < length bs' div ?n" for i
  proof -
    have "Suc i \<le> length bs' div ?n" using that by simp
    then have "Suc i * ?n \<le> length bs' div ?n * ?n" by (rule mult_le_mono1)
    also have "\<dots> \<le> length bs'" by (rule div_times_less_eq_dividend)
    finally have "i * ?n + ?n \<le> length bs'" by simp
    with len have le: "i * ?n + ?n \<le> ?n * 64" by linarith
    have "take ?n (drop (i * ?n) (store 0 bs' event0)) = take ?n (drop (i * ?n) bs')"
      using that by (rule chunk_of_store)
    also have "\<dots> = take ?n (take (?n * 64 - i * ?n) (drop (i * ?n) bs))"
      by (simp add: bs'_def drop_take)
    also have "\<dots> = take ?n (drop (i * ?n) bs)"
    proof -
      have "min ?n (?n * 64 - i * ?n) = ?n"
        using le by (intro min_absorb1) linarith
      then show ?thesis by (simp only: take_take)
    qed
    finally show ?thesis .
  qed
  then have "map (\<lambda>i. py_input_event (input_event_of_bytes
                 (take ?n (drop (i * ?n) (store 0 bs' event0))))) [0..<length bs' div ?n]
           = map (\<lambda>i. py_input_event (input_event_of_bytes
                 (take ?n (drop (i * ?n) bs)))) [0..<length bs' div ?n]"
    by simp
  then show ?thesis
    using Inr by (simp add: device_read_many_def sys_read_def append_events_map Let_def bs'_def)
qed

text \<open>
  C4. Batch read. A failing \<^verbatim>\<open>read\<close> raises the OS error. Otherwise the result is the list of
  the \<open>bytes_read div record_size\<close> whole records, at most 64, in arrival order, element
  \<open>i\<close> decoded from bytes \<open>[i * size, (i + 1) * size)\<close> of what was read; bytes of a
  trailing partial record are dropped. So \<open>N \<le> 64\<close> whole records followed by fewer stray
  bytes than one record decode to exactly those \<open>N\<close> events, and zero bytes give the empty
  list. The content of the local buffer on entry does not matter.
\<close>

theorem device_read_many_whole_records:
  "(\<forall>e. read_data dev = Inl e \<longrightarrow> device_read_many dev event0 = Inl (IOError e))
   \<and> (\<forall>bs. read_data dev = Inr bs \<longrightarrow>
         (\<exists>xs. device_read_many dev event0 = Inr (PyList xs)
              \<and> length xs = length (take (sizeof_input_event * 64) bs) div sizeof_input_event
              \<and> length xs \<le> 64
              \<and> (\<forall>i<length xs. xs ! i =
                    py_input_event (input_event_of_bytes
                      (take sizeof_input_event (drop (i * sizeof_input_event) bs))))))
   \<and> (\<forall>evs stray. read_data dev = Inr (concat (map input_event_bytes evs) @ stray)
          \<and> length evs \<le> 64 \<and> length stray < sizeof_input_event \<longrightarrow>
          device_read_many dev event0 = Inr (PyList (map py_input_event evs)))
   \<and> (read_data dev = Inr [] \<longrightarrow> device_read_many dev event0 = Inr (PyList []))"
proof (intro conjI allI impI)
  fix e assume "read_data dev = Inl e"
  then show "device_read_many dev event0 = Inl (IOError e)"
    by (simp add: device_read_many_eq)
next
  fix bs assume bs: "read_data dev = Inr bs"
  let ?n = sizeof_input_event
  let ?k = "length (take (?n * 64) bs) div ?n"
  let ?xs = "map (\<lambda>i. py_input_event (input_event_of_bytes (take ?n (drop (i * ?n) bs)))) [0..<?k]"
  have "length (take (?n * 64) bs) \<le> ?n * 64" by simp
  then have "?k \<le> (?n * 64) div ?n" by (rule div_le_mono)
  then have "?k \<le> 64" by (simp add: sizeof_input_event_def)
  then have "device_read_many dev event0 = Inr (PyList ?xs) \<and> length ?xs = ?k \<and> length ?xs \<le> 64
      \<and> (\<forall>i<length ?xs. ?xs ! i = py_input_event (input_event_of_bytes (take ?n (drop (i * ?n) bs))))"
    using bs by (simp add: device_read_many_eq)
  then show "\<exists>xs. device_read_many dev event0 = Inr (PyList xs) \<and> length xs = ?k \<and> length xs \<le> 64
      \<and> (\<forall>i<length xs. xs ! i = py_input_event (input_event_of_bytes (take ?n (drop (i * ?n) bs))))"
    by blast
next
  fix evs stray
  let ?n = sizeof_input_event
  let ?bs = "concat (map input_event_bytes evs) @ stray"
  assume a: "read_data dev = Inr ?bs \<and> length evs \<le> 64 \<and> length stray < ?n"
  then have "length evs * ?n \<le> 64 * ?n" by simp
  then have "length (take (?n * 64) ?bs) = length evs * ?n + min (length stray) (?n * 64 - length evs * ?n)"
    by (simp add: length_concat_records min_def)
  moreover have "min (length stray) (?n * 64 - length evs * ?n) < ?n"
    using a by (simp add: min_less_iff_disj)
  ultimately have k: "length (take (?n * 64) ?bs) div ?n = length evs"
    by (simp add: sizeof_input_event_def)
  have "map (\<lambda>i. py_input_event (input_event_of_bytes (take ?n (drop (i * ?n) ?bs)))) [0..<length evs]
        = map (\<lambda>i. py_input_event (evs ! i)) [0..<length evs]"
  proof (rule map_cong [OF refl])
    fix i assume "i \<in> set [0..<length evs]"
    then have "i < length evs" by simp
    then have "take ?n (drop (i * ?n) ?bs) = input_event_bytes (evs ! i)"
      by (rule chunk_of_records)
    moreover have "input_event_of_bytes (input_event_bytes (evs ! i)) = evs ! i"
      using input_event_of_bytes_bytes [of "evs ! i" "[]"] by (simp only: append_Nil2)
    ultimately show "py_input_event (input_event_of_bytes (take ?n (drop (i * ?n) ?bs)))
        = py_input_event (evs ! i)"
      by (simp only:)
  qed
  also have "\<dots> = map py_input_event evs"
    by (rule nth_equalityI) simp_all
  finally have "map (\<lambda>i. py_input_event (input_event_of_bytes (take ?n (drop (i * ?n) ?bs)))) [0..<length evs]
        = map py_input_event evs" .
  then show "device_read_many dev event0 = Inr (PyList (map py_input_event evs))"
    using a k by (simp add: device_read_many_eq)
next
  assume "read_data dev = Inr []"
  then show "device_read_many dev event0 = Inr (PyList [])"
    by (simp add: device_read_many_eq)
qed


theorem device_read_many_whole_records_witness:
  "length [key_press, abs_motion] \<le> 64 \<and> length [1, 2, 3 :: byte] < sizeof_input_event
   \<and> device_read_many
        (unplugged\<lparr>read_data := Inr (concat (map input_event_bytes [key_press, abs_motion]) @ [1, 2, 3])\<rparr>) []
      = Inr (PyList [PyTuple [PyLong 1, PyLong 2, PyLong 1, PyLong 30, PyLong (- 1)],
                     PyTuple [PyLong 1, PyLong 3, PyLong 3, PyLong 0, PyLong 0x7FFFFFFF]])
   \<and> device_read_many unplugged [] = Inl (IOError 19)
   \<and> device_read_many (unplugged\<lparr>read_data := Inr []\<rparr>) [] = Inr (PyList [])"
proof -
  let ?evs = "[key_press, abs_motion]"
  let ?dev = "unplugged\<lparr>read_data := Inr (concat (map input_event_bytes ?evs) @ [1, 2, 3])\<rparr>"
  have pre: "read_data ?dev = Inr (concat (map input_event_bytes ?evs) @ [1, 2, 3])
      \<and> length ?evs \<le> 64 \<and> length [1, 2, 3 :: byte] < sizeof_input_event"
    by (simp add: sizeof_input_event_def)
  with device_read_many_whole_records [of ?dev "[]"]
  have "device_read_many ?dev [] = Inr (PyList (map py_input_event ?evs))"
    by blast
  moreover have "device_read_many unplugged [] = Inl (IOError 19)"
    using device_read_many_whole_records [of unplugged "[]"] by (simp add: unplugged_def)
  moreover have "device_read_many (unplugged\<lparr>read_data := Inr []\<rparr>) [] = Inr (PyList [])"
    using device_read_many_whole_records [of "unplugged\<lparr>read_data := Inr []\<rparr>" "[]"] by simp
  ultimately show ?thesis
    using pre by (simp add: py_input_event_def key_press_def abs_motion_def)
qed

subsection \<open>Single read and unpack\<close>

text \<open>The read path does decode the record it was given.\<close>

lemma device_read_roundtrip:
  "device_read (dev\<lparr>read_data := Inr (input_event_bytes ev)\<rparr>) event0 = Inr (py_input_event ev)"
  using input_event_of_bytes_bytes [of ev "drop sizeof_input_event event0"]
  by (simp add: device_read_def sys_read_def store_def)

text \<open>
  C3. Round trip through \<^verbatim>\<open>unpack\<close>. The claim asks that unpacking the bytes of an event
  gives back its tuple. \<open>event_unpack\<close> returns \<open>None\<close> for every record, so it never
  returns the tuple.
\<close>

theorem event_unpack_returns_none:
  "event_unpack (input_event_bytes ev) = Inr PyNone
   \<and> event_unpack (input_event_bytes ev) \<noteq> Inr (py_input_event ev)
   \<and> event_unpack (input_event_bytes key_press)
       \<noteq> Inr (PyTuple [PyLong 1, PyLong 2, PyLong 1, PyLong 30, PyLong (- 1)])"
  by (simp add: event_unpack_def py_input_event_def)

text \<open>
  C5. Single read with a short count. The claim asks for a separate condition when \<^verbatim>\<open>read\<close>
  returns fewer bytes than a record. \<open>device_read\<close> returns a tuple for every non-negative
  count: with zero bytes read, the tuple is built from what the local structure held on
  entry.
\<close>

theorem device_read_short_read_builds_tuple:
  "device_read (dev\<lparr>read_data := Inr bs\<rparr>) event0
     = Inr (py_input_event (input_event_of_bytes (store 0 (take sizeof_input_event bs) event0)))
   \<and> device_read (dev\<lparr>read_data := Inr []\<rparr>) event0
     = Inr (py_input_event (input_event_of_bytes event0))
   \<and> device_read (unplugged\<lparr>read_data := Inr []\<rparr>) (input_event_bytes key_press)
     = Inr (PyTuple [PyLong 1, PyLong 2, PyLong 1, PyLong 30, PyLong (- 1)])"
proof -
  have general: "device_read (d\<lparr>read_data := Inr bs'\<rparr>) m
      = Inr (py_input_event (input_event_of_bytes (store 0 (take sizeof_input_event bs') m)))"
    for d bs' m
    by (simp add: device_read_def sys_read_def)
  have empty: "store 0 (take sizeof_input_event []) m = m" for m :: "byte list"
    by (simp add: store_def)
  have "input_event_of_bytes (input_event_bytes key_press) = key_press"
    using input_event_of_bytes_bytes [of key_press "[]"] by (simp only: append_Nil2)
  then have "device_read (unplugged\<lparr>read_data := Inr []\<rparr>) (input_event_bytes key_press)
      = Inr (py_input_event key_press)"
    by (simp only: general empty)
  also have "py_input_event key_press
      = PyTuple [PyLong 1, PyLong 2, PyLong 1, PyLong 30, PyLong (- 1)]"
    by (simp add: py_input_event_def key_press_def)
  finally show ?thesis
    using general [where d = dev and bs' = bs and m = event0]
      general [where d = dev and bs' = "[]" and m = event0]
    by (simp only: empty simp_thms)
qed

subsection \<open>Control queries\<close>

text \<open>
  C9. Uniform error signalling. The claim asks that a failing call raises the OS error. With
  a failing \<^verbatim>\<open>ioctl\<close>, \<open>ioctl_EVIOCGVERSION\<close> returns whatever the local \<open>res\<close> held on
  entry and \<open>ioctl_EVIOCSREP\<close> returns the integer \<open>-1\<close>; neither raises, where
  \<open>ioctl_EVIOCGRAB\<close> on the same descriptor does.
\<close>

theorem status_not_turned_into_fault:
  "ioctl_EVIOCGVERSION (dev\<lparr>EVIOCGVERSION := Inl e\<rparr>) res0 = Inr (PyLong (sint res0))
   \<and> ioctl_EVIOCSREP (dev\<lparr>EVIOCSREP := (\<lambda>delay period. Inl e)\<rparr>) delay period = Inr (PyLong (- 1))
   \<and> ioctl_EVIOCGVERSION unplugged 0x7B = Inr (PyLong 123)
   \<and> ioctl_EVIOCSREP unplugged 250 33 = Inr (PyLong (- 1))
   \<and> ioctl_EVIOCGRAB unplugged 1 = Inl (IOError 19)"
  by (simp add: ioctl_EVIOCGVERSION_def ioctl_EVIOCSREP_def ioctl_EVIOCGRAB_def unplugged_def)

subsection \<open>Force-feedback writes\<close>

lemma hd_store:
  "0 < off \<Longrightarrow> m \<noteq> [] \<Longrightarrow> hd (store off src m) = hd m"
  by (cases m; cases off) (simp_all add: store_def)

lemma store_not_Nil: "m \<noteq> [] \<Longrightarrow> 0 < off \<Longrightarrow> store off src m \<noteq> []"
  by (cases m; cases off) (simp_all add: store_def)

lemma hd_set_fields: "m \<noteq> [] \<Longrightarrow> hd (set_fields t c v m) = hd m"
  by (simp add: set_fields_def hd_store store_not_Nil)

text \<open>
  C10. Determinism of the written record. The claim asks that the bytes written are
  determined by the arguments. The time fields are never assigned: two calls with the same
  arguments write different records when the local structure held different bytes on entry.
\<close>

theorem ff_write_depends_on_stack:
  "fst (play_FF_EFFECT h dev (replicate 24 0) fxid ntimes)
     \<noteq> fst (play_FF_EFFECT h dev (replicate 24 0xFF) fxid ntimes)
   \<and> fst (set_FF_GAIN h dev (replicate 24 0) gain)
     \<noteq> fst (set_FF_GAIN h dev (replicate 24 0xFF) gain)
   \<and> fst (set_FF_AUTOCENTER h dev (replicate 24 0) force)
     \<noteq> fst (set_FF_AUTOCENTER h dev (replicate 24 0xFF) force)"
proof -
  have "hd (fst (write_event dev (set_fields t c v (replicate 24 0))))
      \<noteq> hd (fst (write_event dev (set_fields t c v (replicate 24 0xFF))))"
    for t c v
    by (simp add: write_event_def Let_def sizeof_input_event_def hd_take hd_set_fields)
  then have "fst (write_event dev (set_fields t c v (replicate 24 0)))
      \<noteq> fst (write_event dev (set_fields t c v (replicate 24 0xFF)))" for t c v
    by metis
  then show ?thesis
    by (simp add: play_FF_EFFECT_def set_FF_GAIN_def set_FF_AUTOCENTER_def)
qed

subsection \<open>Device identity\<close>

lemma c_string_zeros: "c_string (replicate n 0) = []"
  by (simp add: c_string_def takeWhile_replicate)

lemma c_string_terminated:
  assumes "0 \<in> set (take n bs)"
  shows "c_string (store 0 (take n bs) m) = c_string bs"
proof -
  have "c_string (store 0 (take n bs) m) = c_string (take n bs)"
    using assms by (simp add: c_string_def store_def takeWhile_append1)
  also have "\<dots> = c_string (take n bs @ drop n bs)"
    using assms by (simp only: c_string_def takeWhile_append1 [of 0 "take n bs"] simp_thms)
  finally show ?thesis by simp
qed

text \<open>
  A keyboard whose name is the two bytes \<open>FF FE\<close> and which has no physical path: the
  identity and the name are fetched, the path fetch fails, and the query raises
  \<open>UnicodeDecodeError\<close> instead of returning the tuple.
\<close>

theorem ioctl_devinfo_name_not_utf8:
  "EVIOCGID latin1_keyboard
     = Inr \<lparr>bustype = 3, vendor = 0x46D, product = 0xC31C, version = 0x110\<rparr>
   \<and> EVIOCGNAME latin1_keyboard MAX_NAME_SIZE = Inr [0xFF, 0xFE, 0]
   \<and> EVIOCGPHYS latin1_keyboard MAX_NAME_SIZE = Inl 19
   \<and> ioctl_devinfo latin1_keyboard (replicate MAX_NAME_SIZE 0x55) = Inl UnicodeDecodeError"
proof -
  have "c_string (store 0 (take MAX_NAME_SIZE [0xFF, 0xFE, 0]) (replicate MAX_NAME_SIZE 0x55))
      = [0xFF, 0xFE]"
    by (simp add: c_string_def store_def MAX_NAME_SIZE_def)
  moreover have "\<not> utf8_valid [0xFF, 0xFE]"
    by (simp add: utf8_len_def)
  ultimately show ?thesis
    by (simp add: ioctl_devinfo_def latin1_keyboard_def usb_keyboard_def unplugged_def
        PyUnicode_FromString_def)
qed

text \<open>
  C8. Device identity. A failing \<open>EVIOCGID\<close> or \<open>EVIOCGNAME\<close> raises the OS error. When
  \<open>EVIOCGPHYS\<close> fails and the name in the array is valid UTF-8, the query returns the tuple
  of the four identity fields, the name and the empty string as the physical path. When
  \<open>EVIOCGPHYS\<close> fails and the name is not valid UTF-8, the query raises
  \<open>UnicodeDecodeError\<close>. The name is the reply up to its NUL when the reply has one.
\<close>

theorem ioctl_devinfo_error_policy:
  "(\<forall>e. EVIOCGID dev = Inl e \<longrightarrow> ioctl_devinfo dev name0 = Inl (IOError e))
   \<and> (\<forall>iid e. EVIOCGID dev = Inr iid \<and> EVIOCGNAME dev MAX_NAME_SIZE = Inl e \<longrightarrow>
         ioctl_devinfo dev name0 = Inl (IOError e))
   \<and> (\<forall>iid bs e. EVIOCGID dev = Inr iid \<and> EVIOCGNAME dev MAX_NAME_SIZE = Inr bs
         \<and> EVIOCGPHYS dev MAX_NAME_SIZE = Inl e \<longrightarrow>
         (utf8_valid (c_string (store 0 (take MAX_NAME_SIZE bs) name0)) \<longrightarrow>
            ioctl_devinfo dev name0 =
              Inr (PyTuple [PyLong (uint (bustype iid)), PyLong (uint (vendor iid)),
                            PyLong (uint (product iid)), PyLong (uint (version iid)),
                            PyStr (c_string (store 0 (take MAX_NAME_SIZE bs) name0)), PyStr []]))
         \<and> (\<not> utf8_valid (c_string (store 0 (take MAX_NAME_SIZE bs) name0)) \<longrightarrow>
              ioctl_devinfo dev name0 = Inl UnicodeDecodeError)
         \<and> (0 \<in> set (take MAX_NAME_SIZE bs) \<longrightarrow>
              c_string (store 0 (take MAX_NAME_SIZE bs) name0) = c_string bs))"
  by (auto simp: ioctl_devinfo_def ioctl_out_def PyUnicode_FromString_def c_string_zeros
      c_string_terminated)

theorem ioctl_devinfo_error_policy_witness:
  "ioctl_devinfo unplugged (replicate MAX_NAME_SIZE 0x55) = Inl (IOError 19)
   \<and> ioctl_devinfo (usb_keyboard\<lparr>EVIOCGNAME := (\<lambda>len. Inl 25)\<rparr>) (replicate MAX_NAME_SIZE 0x55) = Inl (IOError 25)
   \<and> EVIOCGPHYS usb_keyboard MAX_NAME_SIZE = Inl 19
   \<and> utf8_valid [0x4B, 0x42]
   \<and> ioctl_devinfo usb_keyboard (replicate MAX_NAME_SIZE 0x55) =
       Inr (PyTuple [PyLong 3, PyLong 0x46D, PyLong 0xC31C, PyLong 0x110,
                     PyStr [0x4B, 0x42], PyStr []])
   \<and> ioctl_devinfo latin1_keyboard (replicate MAX_NAME_SIZE 0x55) = Inl UnicodeDecodeError"
proof -
  let ?stale = "replicate MAX_NAME_SIZE 0x55 :: byte list"
  let ?iid = "\<lparr>bustype = 3, vendor = 0x46D, product = 0xC31C, version = 0x110 :: 16 word\<rparr>"
  let ?nm = "[0x4B, 0x42, 0 :: byte]"
  let ?bad = "[0xFF, 0xFE, 0 :: byte]"
  have a: "EVIOCGID unplugged = Inl 19" by (simp add: unplugged_def)
  have b: "EVIOCGID (usb_keyboard\<lparr>EVIOCGNAME := (\<lambda>len. Inl 25)\<rparr>) = Inr ?iid
      \<and> EVIOCGNAME (usb_keyboard\<lparr>EVIOCGNAME := (\<lambda>len. Inl 25)\<rparr>) MAX_NAME_SIZE = Inl 25"
    by (simp add: usb_keyboard_def)
  have c: "EVIOCGID usb_keyboard = Inr ?iid \<and> EVIOCGNAME usb_keyboard MAX_NAME_SIZE = Inr ?nm
      \<and> EVIOCGPHYS usb_keyboard MAX_NAME_SIZE = Inl 19"
    by (simp add: usb_keyboard_def unplugged_def)
  have c': "EVIOCGID latin1_keyboard = Inr ?iid
      \<and> EVIOCGNAME latin1_keyboard MAX_NAME_SIZE = Inr ?bad
      \<and> EVIOCGPHYS latin1_keyboard MAX_NAME_SIZE = Inl 19"
    by (simp add: latin1_keyboard_def usb_keyboard_def unplugged_def)
  have d: "0 \<in> set (take MAX_NAME_SIZE ?nm)" "0 \<in> set (take MAX_NAME_SIZE ?bad)"
    by (simp_all add: MAX_NAME_SIZE_def)
  have e: "c_string ?nm = [0x4B, 0x42]" "c_string ?bad = [0xFF, 0xFE]"
    by (simp_all add: c_string_def)
  have v: "utf8_valid [0x4B, 0x42]" "\<not> utf8_valid [0xFF, 0xFE]"
    by (simp_all add: utf8_len_def utf8_tail_def)
  from a ioctl_devinfo_error_policy [of unplugged "?stale"]
  have 1: "ioctl_devinfo unplugged ?stale = Inl (IOError 19)" by blast
  from b ioctl_devinfo_error_policy [of "usb_keyboard\<lparr>EVIOCGNAME := (\<lambda>len. Inl 25)\<rparr>" ?stale]
  have 2: "ioctl_devinfo (usb_keyboard\<lparr>EVIOCGNAME := (\<lambda>len. Inl 25)\<rparr>) ?stale = Inl (IOError 25)"
    by blast
  note ioctl_devinfo_error_policy [of usb_keyboard ?stale, THEN conjunct2, THEN conjunct2,
      THEN spec, THEN spec, THEN spec, THEN mp, OF c]
  with d e v have 3: "ioctl_devinfo usb_keyboard ?stale =
       Inr (PyTuple [PyLong (uint (bustype ?iid)), PyLong (uint (vendor ?iid)),
                     PyLong (uint (product ?iid)), PyLong (uint (version ?iid)),
                     PyStr [0x4B, 0x42], PyStr []])"
    by simp
  note ioctl_devinfo_error_policy [of latin1_keyboard ?stale, THEN conjunct2, THEN conjunct2,
      THEN spec, THEN spec, THEN spec, THEN mp, OF c']
  with d e v have 4: "ioctl_devinfo latin1_keyboard ?stale = Inl UnicodeDecodeError"
    by simp
  from 1 2 3 4 c v show ?thesis by simp
qed

section \<open>Properties of the capability enumerator\<close>

subsection \<open>Probes\<close>

lemma test_bit_nat:
  "test_bit m (int i) =
     (if length m \<le> i div 8 then None
      else Some (scast (m ! (i div 8)) AND push_bit (i mod 8) 1))"
proof -
  have "nat (int i div 8) = i div 8" "nat (int i mod 8) = i mod 8"
    by (simp_all add: nat_div_distrib nat_mod_distrib)
  then show ?thesis by (simp add: test_bit_def)
qed

lemma bit_set_iff:
  "bit_set m i = (i div 8 < length m \<and> bit (m ! (i div 8)) (i mod 8))"
  using scast_and_mask_bit [of "i mod 8" "m ! (i div 8)"]
  by (simp add: bit_set_def test_bit_nat)

lemma length_store0: "length (store 0 src m) = max (length src) (length m)"
  by (simp add: store_def)

lemma length_ioctl_out: "length m \<le> length (ioctl_out reply len m)"
  by (cases reply) (simp_all add: ioctl_out_def length_store0)

lemma rounded_up_holds_every_bit:
  fixes i n :: nat
  assumes "i < n"
  shows "i div 8 < (n + 7) div 8"
proof -
  have "Suc i \<le> n" using assms by simp
  then have "(Suc i + 7) div 8 \<le> (n + 7) div 8" by (intro div_le_mono) simp
  moreover have "i div 8 < (Suc i + 7) div 8" by simp
  ultimately show ?thesis by simp
qed

subsection \<open>Memory\<close>

lemma poke_fields:
  assumes "poke f p src = Some f'"
  shows "above f' = above f" "ev_bits_at f' = ev_bits_at f" "code_bits_at f' = code_bits_at f"
    "absinfo_at f' = absinfo_at f"
  using assms by (auto simp: poke_def split: if_splits option.splits)

lemma ioctl_into_fields:
  assumes "ioctl_into reply len f p = Some f'"
  shows "above f' = above f" "ev_bits_at f' = ev_bits_at f" "code_bits_at f' = code_bits_at f"
    "absinfo_at f' = absinfo_at f"
  using assms poke_fields [of f p _ f']
  by (auto simp: ioctl_into_def split: sum.splits)

lemma poke_mapped: "above f = Some b \<Longrightarrow> poke f p src \<noteq> None"
  by (simp add: poke_def)

lemma ioctl_into_mapped: "above f = Some b \<Longrightarrow> ioctl_into reply len f p \<noteq> None"
  by (cases reply) (simp_all add: ioctl_into_def poke_mapped)

lemma length_load_mapped: "above f = Some b \<Longrightarrow> length (load f p n) = n"
  by (simp add: load_def)

lemma probe_mapped:
  assumes "above f = Some b" and "i < n"
  shows "test_bit (load f p (reach n)) (int i) \<noteq> None"
  using assms rounded_up_holds_every_bit [of i n]
  by (simp add: test_bit_nat length_load_mapped reach_def)

lemma load_poke_same:
  assumes "poke f p src = Some f'"
  shows "load f' p (length src) = src"
proof (cases "src = [] \<or> p + length src \<le> length (stack f)")
  case True
  with assms have f': "f' = f\<lparr>stack := store p src (stack f)\<rparr>" by (simp add: poke_def)
  show ?thesis
  proof (cases "src = []")
    case True
    then show ?thesis by (simp add: load_def)
  next
    case False
    with True have "p + length src \<le> length (stack f)" by simp
    then show ?thesis by (simp add: f' load_def store_def)
  qed
next
  case False
  with assms obtain b where b: "above f = Some b"
    and f': "f' = f\<lparr>stack := store p src
                (stack f @ replicate (p + length src - length (stack f)) b)\<rparr>"
    by (auto simp: poke_def split: option.splits)
  from False have "length (stack f) < p + length src" by simp
  then show ?thesis by (simp add: f' load_def store_def)
qed

subsection \<open>The axis structure\<close>

lemma le_word_zeros: "le_word (replicate n 0) = 0"
  by (induction n) simp_all

lemma length_input_absinfo_bytes [simp]:
  "length (input_absinfo_bytes a) = sizeof_input_absinfo"
  by (simp add: input_absinfo_bytes_def sizeof_input_absinfo_def)

lemma input_absinfo_of_bytes_bytes: "input_absinfo_of_bytes (input_absinfo_bytes a) = a"
  by (simp add: input_absinfo_of_bytes_def input_absinfo_bytes_def le_word_le_bytes_id)

lemma input_absinfo_of_zeros:
  "input_absinfo_of_bytes (replicate sizeof_input_absinfo 0) =
     \<lparr>abs_value = 0, abs_minimum = 0, abs_maximum = 0,
      abs_fuzz = 0, abs_flat = 0, abs_resolution = 0\<rparr>"
  by (simp add: input_absinfo_of_bytes_def sizeof_input_absinfo_def le_word_zeros)

lemma fetch_absinfo_Some:
  assumes "fetch_absinfo dev c f = Some (f', a)"
  shows "a = absinfo_after dev c" and "above f' = above f" and "ev_bits_at f' = ev_bits_at f"
    and "code_bits_at f' = code_bits_at f" and "absinfo_at f' = absinfo_at f"
proof -
  from assms obtain f1 where
    f1: "poke f (absinfo_at f) (replicate sizeof_input_absinfo 0) = Some f1" and
    f': "ioctl_into (map_sum id input_absinfo_bytes (EVIOCGABS dev c)) sizeof_input_absinfo f1
           (absinfo_at f) = Some f'" and
    a: "a = input_absinfo_of_bytes (load f' (absinfo_at f) sizeof_input_absinfo)"
    by (auto simp: fetch_absinfo_def split: option.splits)
  from poke_fields [OF f1] ioctl_into_fields [OF f']
  show "above f' = above f" "ev_bits_at f' = ev_bits_at f" "code_bits_at f' = code_bits_at f"
    "absinfo_at f' = absinfo_at f"
    by simp_all
  show "a = absinfo_after dev c"
  proof (cases "EVIOCGABS dev c")
    case (Inl e)
    with f' have "f' = f1" by (simp add: ioctl_into_def)
    with load_poke_same [OF f1] have "load f' (absinfo_at f) sizeof_input_absinfo
        = replicate sizeof_input_absinfo 0"
      by simp
    with a Inl show ?thesis by (simp add: input_absinfo_of_zeros absinfo_after_def)
  next
    case (Inr x)
    with f' have "poke f1 (absinfo_at f) (input_absinfo_bytes x) = Some f'"
      by (simp add: ioctl_into_def)
    from load_poke_same [OF this] have "load f' (absinfo_at f) sizeof_input_absinfo
        = input_absinfo_bytes x"
      by simp
    with a Inr show ?thesis by (simp add: input_absinfo_of_bytes_bytes absinfo_after_def)
  qed
qed

lemma fetch_absinfo_mapped: "above f = Some b \<Longrightarrow> fetch_absinfo dev c f \<noteq> None"
proof -
  assume b: "above f = Some b"
  then obtain f1 where f1: "poke f (absinfo_at f) (replicate sizeof_input_absinfo 0) = Some f1"
    using poke_mapped [of f b] by blast
  with b have "above f1 = Some b" using poke_fields(1) [OF f1] by simp
  then obtain f2 where "ioctl_into (map_sum id input_absinfo_bytes (EVIOCGABS dev c))
      sizeof_input_absinfo f1 (absinfo_at f) = Some f2"
    using ioctl_into_mapped [of f1 b] by blast
  with f1 show ?thesis by (simp add: fetch_absinfo_def)
qed

subsection \<open>The two loops\<close>

lemma PyDict_SetItem_new:
  "k \<notin> fst ` set kvs \<Longrightarrow> PyDict_SetItem kvs k v = kvs @ [(k, v)]"
  by (induction kvs) auto

lemma scan_codes_fields:
  assumes "scan_codes h dev t cs f acc = Some (f', res)"
  shows "above f' = above f \<and> ev_bits_at f' = ev_bits_at f \<and> code_bits_at f' = code_bits_at f
       \<and> absinfo_at f' = absinfo_at f"
  using assms
proof (induction cs arbitrary: f acc)
  case Nil
  then show ?case by simp
next
  case (Cons c cs)
  from Cons.prems obtain r where
    r: "test_bit (load f (code_bits_at f) (reach (KEY_MAX h))) (int c) = Some r"
    by (auto split: option.splits)
  show ?case
  proof (cases "r \<noteq> 0 \<and> t = EV_ABS h")
    case True
    with r Cons.prems obtain f1 a where f1: "fetch_absinfo dev c f = Some (f1, a)"
      and rest: "scan_codes h dev t cs f1 (acc @ [PyTuple [PyLong (int c), py_absinfo a]])
                   = Some (f', res)"
      by (auto split: option.splits)
    from Cons.IH [OF rest] fetch_absinfo_Some(2-5) [OF f1] show ?thesis by simp
  next
    case False
    with r Cons.prems have "\<exists>acc'. scan_codes h dev t cs f acc' = Some (f', res)"
      by (auto split: if_splits)
    then obtain acc' where "scan_codes h dev t cs f acc' = Some (f', res)" by blast
    from Cons.IH [OF this] show ?thesis .
  qed
qed


lemma scan_codes_mapped:
  assumes "above f = Some b" and "\<forall>c\<in>set cs. c < KEY_MAX h"
  shows "scan_codes h dev t cs f acc \<noteq> None"
  using assms
proof (induction cs arbitrary: f acc)
  case Nil
  then show ?case by simp
next
  case (Cons c cs)
  from Cons.prems have "test_bit (load f (code_bits_at f) (reach (KEY_MAX h))) (int c) \<noteq> None"
    by (intro probe_mapped) simp_all
  then obtain r where
    r: "test_bit (load f (code_bits_at f) (reach (KEY_MAX h))) (int c) = Some r" by blast
  have rest: "scan_codes h dev t cs f acc' \<noteq> None" for acc'
    using Cons.IH [OF Cons.prems(1)] Cons.prems(2) by simp
  show ?case
  proof (cases "r \<noteq> 0 \<and> t = EV_ABS h")
    case True
    from fetch_absinfo_mapped [OF Cons.prems(1)] obtain f1 a where
      f1: "fetch_absinfo dev c f = Some (f1, a)" by fastforce
    from fetch_absinfo_Some(2) [OF f1] Cons.prems(1) have "above f1 = Some b" by simp
    from Cons.IH [OF this] Cons.prems(2)
    have "scan_codes h dev t cs f1 (acc @ [PyTuple [PyLong (int c), py_absinfo a]]) \<noteq> None"
      by simp
    with r True f1 show ?thesis by simp
  next
    case False
    with r rest show ?thesis by auto
  qed
qed


lemma scan_types_mapped:
  assumes "above f = Some b" and "\<forall>t\<in>set ts. t < EV_MAX h"
  shows "scan_types h dev ts f caps \<noteq> None"
  using assms
proof (induction ts arbitrary: f caps)
  case Nil
  then show ?case by simp
next
  case (Cons t ts)
  from Cons.prems have "test_bit (load f (ev_bits_at f) (reach (EV_MAX h))) (int t) \<noteq> None"
    by (intro probe_mapped) simp_all
  then obtain r where
    r: "test_bit (load f (ev_bits_at f) (reach (EV_MAX h))) (int t) = Some r" by blast
  have later: "scan_types h dev ts f' caps' \<noteq> None" if "above f' = Some b" for f' caps'
    using Cons.IH [OF that] Cons.prems(2) by simp
  show ?case
  proof (cases "r = 0")
    case True
    with r later [OF Cons.prems(1)] show ?thesis by simp
  next
    case False
    from poke_mapped [OF Cons.prems(1)] obtain f1 where
      f1: "poke f (code_bits_at f) (replicate (sizeof_code_bits h) 0) = Some f1" by blast
    with Cons.prems(1) have b1: "above f1 = Some b" using poke_fields(1) [OF f1] by simp
    from ioctl_into_mapped [OF b1] obtain f2 where
      f2: "ioctl_into (EVIOCGBIT dev t (KEY_MAX h)) (KEY_MAX h) f1 (code_bits_at f) = Some f2"
      by blast
    with b1 have b2: "above f2 = Some b" using ioctl_into_fields(1) [OF f2] by simp
    have "scan_codes h dev t [0..<KEY_MAX h] f2 [] \<noteq> None"
      using b2 by (rule scan_codes_mapped) simp
    then obtain f3 eventcodes where
      f3: "scan_codes h dev t [0..<KEY_MAX h] f2 [] = Some (f3, eventcodes)" by fastforce
    with b2 have "above f3 = Some b" using scan_codes_fields [OF f3] by simp
    from later [OF this] r False f1 f2 f3 show ?thesis by simp
  qed
qed

lemma scan_types_undefined:
  assumes "\<forall>t\<in>set ts. t div 8 < length (load f (ev_bits_at f) (reach (EV_MAX h)))
             \<and> \<not> bit_set (load f (ev_bits_at f) (reach (EV_MAX h))) t"
    and "length (load f (ev_bits_at f) (reach (EV_MAX h))) \<le> t' div 8"
  shows "scan_types h dev (ts @ t' # ts') f caps = None"
  using assms
proof (induction ts)
  case Nil
  then show ?case by (simp add: test_bit_nat)
next
  case (Cons t ts)
  then obtain r where "test_bit (load f (ev_bits_at f) (reach (EV_MAX h))) (int t) = Some r"
    by (auto simp: test_bit_nat)
  moreover from this Cons.prems have "r = 0" by (simp add: bit_set_def)
  ultimately show ?case using Cons by simp
qed

lemma ioctl_capabilities_returns:
  assumes "above frm = Some b" and "EVIOCGBIT dev 0 (EV_MAX h) = Inr bs"
  shows "\<exists>kvs. ioctl_capabilities h dev frm = Some (Inr (PyDict kvs))"
proof -
  from poke_mapped [OF assms(1)] obtain f1 where
    f1: "poke frm (ev_bits_at frm) (replicate (sizeof_ev_bits h) 0) = Some f1" by blast
  with assms(1) have b1: "above f1 = Some b" using poke_fields(1) [OF f1] by simp
  from poke_mapped [OF b1] obtain f2 where
    f2: "poke f1 (ev_bits_at frm) (take (EV_MAX h) bs) = Some f2" by blast
  with b1 have "above f2 = Some b" using poke_fields(1) [OF f2] by simp
  then have "scan_types h dev [0..<EV_MAX h] f2 [] \<noteq> None"
    by (rule scan_types_mapped) simp
  then obtain kvs where "scan_types h dev [0..<EV_MAX h] f2 [] = Some kvs" by blast
  with f1 f2 assms(2) show ?thesis by (simp add: ioctl_capabilities_def)
qed

lemma ioctl_capabilities_eval:
  assumes "poke frm (ev_bits_at frm) (replicate (sizeof_ev_bits h) 0) = Some f1"
    and "EVIOCGBIT dev 0 (EV_MAX h) = Inr bs"
    and "poke f1 (ev_bits_at frm) (take (EV_MAX h) bs) = Some f2"
  shows "ioctl_capabilities h dev frm
       = map_option (\<lambda>c. Inr (PyDict c)) (scan_types h dev [0..<EV_MAX h] f2 [])"
  using assms by (simp add: ioctl_capabilities_def split: option.split)

subsection \<open>Writes that do not reach another object\<close>













subsection \<open>Reading a bitmask byte by byte\<close>

lemma bit_set_Nil: "filter (bit_set []) xs = []"
  by (induction xs) (simp_all add: bit_set_iff)

lemma bit_set_Cons_low: "i < 8 \<Longrightarrow> bit_set (b # m) i = bit b i"
  by (simp add: bit_set_iff)

lemma bit_set_Cons_high: "bit_set (b # m) (i + 8) = bit_set m i"
proof -
  have "(i + 8) div 8 = Suc (i div 8)" by simp
  then show ?thesis by (simp add: bit_set_iff)
qed

lemma set_bits_Cons:
  "filter (bit_set (b # m)) [0..<n] =
     filter (bit b) [0..<min 8 n] @ map (\<lambda>i. i + 8) (filter (bit_set m) [0..<n - 8])"
proof (cases "n \<le> 8")
  case True
  have "filter (bit_set (b # m)) [0..<n] = filter (bit b) [0..<n]"
    using True by (intro filter_cong) (simp_all add: bit_set_Cons_low)
  with True show ?thesis by (simp add: min_def)
next
  case False
  then have n: "n = 8 + (n - 8)" by simp
  have "[0..<n] = [0..<8] @ map (\<lambda>i. i + 8) [0..<n - 8]"
    by (subst n, subst upt_add_eq_append) (simp_all add: map_add_upt add.commute)
  moreover have "filter (bit_set (b # m)) [0..<8] = filter (bit b) [0..<8]"
    by (intro filter_cong) (simp_all add: bit_set_Cons_low)
  moreover have "filter (bit_set (b # m)) (map (\<lambda>i. i + 8) xs)
      = map (\<lambda>i. i + 8) (filter (bit_set m) xs)" for xs
    by (simp add: filter_map o_def bit_set_Cons_high)
  ultimately show ?thesis using False by (simp add: min_def)
qed

lemma set_bits_zeros:
  "filter (bit_set (replicate k 0 @ m)) [0..<n] =
     map (\<lambda>i. i + 8 * k) (filter (bit_set m) [0..<n - 8 * k])"
proof (induction k arbitrary: n)
  case 0
  then show ?case by simp
next
  case (Suc k)
  have "filter (bit (0 :: byte)) xs = []" for xs :: "nat list"
    by (induction xs) simp_all
  then have "filter (bit_set (replicate (Suc k) 0 @ m)) [0..<n]
      = map (\<lambda>i. i + 8) (filter (bit_set (replicate k 0 @ m)) [0..<n - 8])"
    by (simp add: set_bits_Cons)
  also have "\<dots> = map (\<lambda>i. i + 8) (map (\<lambda>i. i + 8 * k) (filter (bit_set m) [0..<n - 8 - 8 * k]))"
    by (simp only: Suc.IH)
  also have "\<dots> = map (\<lambda>i. i + 8 * Suc k) (filter (bit_set m) [0..<n - 8 * Suc k])"
    by (simp add: o_def add.assoc)
  finally show ?case .
qed

lemma upt8: "[0..<8] = [0, 1, 2, 3, 4, 5, 6, 7]"
  by code_simp

lemma upt7: "[0..<7] = [0, 1, 2, 3, 4, 5, 6]"
  by code_simp

lemma unset_outside:
  assumes "filter (bit_set V) [0..<n] = ks" and "c < n" and "c \<notin> set ks"
  shows "\<not> bit_set V c"
proof
  assume "bit_set V c"
  with assms(2) have "c \<in> set (filter (bit_set V) [0..<n])" by simp
  with assms(1,3) show False by simp
qed

subsection \<open>Stepping through the loops\<close>

lemma scan_codes_skip:
  assumes "\<forall>c\<in>set pre. c div 8 < length V \<and> \<not> bit_set V c"
    and "load f (code_bits_at f) (reach (KEY_MAX h)) = V"
  shows "scan_codes h dev t (pre @ rest) f acc = scan_codes h dev t rest f acc"
  using assms(1)
proof (induction pre)
  case Nil
  then show ?case by simp
next
  case (Cons c pre)
  then obtain r where "test_bit V (int c) = Some r" by (auto simp: test_bit_nat)
  moreover from this Cons.prems have "r = 0" by (simp add: bit_set_def)
  ultimately show ?case using Cons assms(2) by simp
qed



lemma scan_types_skip:
  assumes "\<forall>t\<in>set pre. t div 8 < length V \<and> \<not> bit_set V t"
    and "load f (ev_bits_at f) (reach (EV_MAX h)) = V"
  shows "scan_types h dev (pre @ rest) f caps = scan_types h dev rest f caps"
  using assms(1)
proof (induction pre)
  case Nil
  then show ?case by simp
next
  case (Cons t pre)
  then obtain r where "test_bit V (int t) = Some r" by (auto simp: test_bit_nat)
  moreover from this Cons.prems have "r = 0" by (simp add: bit_set_def)
  ultimately show ?case using Cons assms(2) by simp
qed

lemma scan_types_step:
  assumes "bit_set V t"
    and "load f (ev_bits_at f) (reach (EV_MAX h)) = V"
    and "poke f (code_bits_at f) (replicate (sizeof_code_bits h) 0) = Some f1"
    and "ioctl_into (EVIOCGBIT dev t (KEY_MAX h)) (KEY_MAX h) f1 (code_bits_at f) = Some f2"
    and "scan_codes h dev t [0..<KEY_MAX h] f2 [] = Some (f3, eventcodes)"
    and "PyLong (int t) \<notin> fst ` set caps"
  shows "scan_types h dev (t # ts) f caps
       = scan_types h dev ts f3 (caps @ [(PyLong (int t), PyList eventcodes)])"
proof -
  from assms(1) obtain r where "test_bit V (int t) = Some r" "r \<noteq> 0"
    by (auto simp: bit_set_def split: option.splits)
  with assms(2-6) show ?thesis by (simp add: PyDict_SetItem_new)
qed

lemma scan_types_skip_unset:
  assumes "load f (ev_bits_at f) (reach (EV_MAX h)) = V"
    and "filter (bit_set V) [0..<n] = ks"
    and "n \<le> 8 * length V"
    and "\<forall>t\<in>set pre. t < n \<and> t \<notin> set ks"
  shows "scan_types h dev (pre @ rest) f caps = scan_types h dev rest f caps"
proof (rule scan_types_skip [OF _ assms(1)], rule ballI, rule conjI)
  fix t assume "t \<in> set pre"
  with assms(4) have t: "t < n" "t \<notin> set ks" by auto
  from t(1) assms(3) show "t div 8 < length V" by auto
  from assms(2) t show "\<not> bit_set V t" by (rule unset_outside)
qed

lemma scan_codes_skip_unset:
  assumes "load f (code_bits_at f) (reach (KEY_MAX h)) = V"
    and "filter (bit_set V) [0..<n] = ks"
    and "n \<le> 8 * length V"
    and "\<forall>c\<in>set pre. c < n \<and> c \<notin> set ks"
  shows "scan_codes h dev t (pre @ rest) f acc = scan_codes h dev t rest f acc"
proof (rule scan_codes_skip [OF _ assms(1)], rule ballI, rule conjI)
  fix c assume "c \<in> set pre"
  with assms(4) have c: "c < n" "c \<notin> set ks" by auto
  from c(1) assms(3) show "c div 8 < length V" by auto
  from assms(2) c show "\<not> bit_set V c" by (rule unset_outside)
qed


lemma scan_codes_none_set:
  assumes "load f (code_bits_at f) (reach (KEY_MAX h)) = V"
    and "filter (bit_set V) [0..<KEY_MAX h] = []"
    and "KEY_MAX h \<le> 8 * length V"
  shows "scan_codes h dev t [0..<KEY_MAX h] f [] = Some (f, [])"
proof -
  have "scan_codes h dev t ([0..<KEY_MAX h] @ []) f [] = scan_codes h dev t [] f []"
    by (rule scan_codes_skip_unset [OF assms]) simp
  then show ?thesis by simp
qed

subsection \<open>Enumerations worked out\<close>

text \<open>
  The sample gamepad in the two mapped frames, and with every call inside the scan
  failing. With \<open>code_bits\<close> directly behind \<open>ev_bits\<close>, the byte that probe 24 reads is the
  first byte of \<open>code_bits\<close>, which holds the axis bits after the round of type 3: the
  result has a key 24 that the device does not report.
\<close>

lemma linux_sizes:
  "EV_MAX linux_input_h = 31" "KEY_MAX linux_input_h = 767" "EV_ABS linux_input_h = 3"
  "sizeof_ev_bits linux_input_h = 3" "sizeof_code_bits linux_input_h = 95"
  "reach 31 = 4" "reach 767 = 96"
  by (simp_all add: linux_input_h_def sizeof_ev_bits_def sizeof_code_bits_def reach_def)



lemma mute_gamepad_packed_capabilities:
  "ioctl_capabilities linux_input_h mute_gamepad packed_frame =
     Some (Inr (PyDict [(PyLong 1, PyList []), (PyLong 3, PyList [])]))"
proof -
  let ?h = linux_input_h
  let ?F = "\<lambda>S. \<lparr>stack = S, above = Some 0, ev_bits_at = 0, code_bits_at = 3, absinfo_at = 104\<rparr>"
  let ?S0 = "replicate 128 0 :: byte list"
  let ?S2 = "0x0A # replicate 127 0 :: byte list"
  let ?ev = "[0x0A, 0, 0, 0] :: byte list"
  let ?cb0 = "replicate 96 0 :: byte list"
  have at: "ev_bits_at packed_frame = 0" by (simp add: packed_frame_def)
  have f1: "poke packed_frame (ev_bits_at packed_frame) (replicate (sizeof_ev_bits ?h) 0)
          = Some (?F ?S0)"
    unfolding at linux_sizes by code_simp
  have reply0: "EVIOCGBIT mute_gamepad 0 (EV_MAX ?h) = Inr [0x0A, 0, 0, 0, 0, 0, 0, 0]"
    by (simp add: mute_gamepad_def linux_sizes)
  have f2: "poke (?F ?S0) (ev_bits_at packed_frame) (take (EV_MAX ?h) [0x0A, 0, 0, 0, 0, 0, 0, 0])
          = Some (?F ?S2)"
    unfolding at linux_sizes by code_simp
  have ev2: "load (?F ?S2) (ev_bits_at (?F ?S2)) (reach (EV_MAX ?h)) = ?ev"
    unfolding linux_sizes by code_simp
  have cb2: "load (?F ?S2) (code_bits_at (?F ?S2)) (reach (KEY_MAX ?h)) = ?cb0"
    unfolding linux_sizes by code_simp
  have types: "filter (bit_set ?ev) [0..<31] = [1, 3]"
    by (simp add: set_bits_Cons bit_set_Nil bit_set_Cons_low upt8 upt7)
  have codes0: "filter (bit_set ?cb0) [0..<KEY_MAX ?h] = []"
    unfolding linux_sizes
    using set_bits_zeros [where m = "[]" and k = 96 and n = 767] by (simp add: bit_set_Nil)
  have m: "poke (?F ?S2) (code_bits_at (?F ?S2)) (replicate (sizeof_code_bits ?h) 0) = Some (?F ?S2)"
    unfolding linux_sizes by code_simp
  have k1: "ioctl_into (EVIOCGBIT mute_gamepad 1 (KEY_MAX ?h)) (KEY_MAX ?h) (?F ?S2)
              (code_bits_at (?F ?S2)) = Some (?F ?S2)"
    by (simp add: mute_gamepad_def ioctl_into_def)
  have k3: "ioctl_into (EVIOCGBIT mute_gamepad 3 (KEY_MAX ?h)) (KEY_MAX ?h) (?F ?S2)
              (code_bits_at (?F ?S2)) = Some (?F ?S2)"
    by (simp add: mute_gamepad_def ioctl_into_def)
  have c: "scan_codes ?h mute_gamepad t [0..<KEY_MAX ?h] (?F ?S2) [] = Some (?F ?S2, [])" for t
    by (rule scan_codes_none_set [OF cb2 codes0]) (simp add: linux_sizes)
  have split: "[0..<31] = [0] @ 1 # ([2] @ 3 # ([4..<31] @ []))"
    by code_simp
  have "scan_types ?h mute_gamepad [0..<EV_MAX ?h] (?F ?S2) []
      = scan_types ?h mute_gamepad ([0] @ 1 # ([2] @ 3 # ([4..<31] @ []))) (?F ?S2) []"
    by (simp only: linux_sizes split [symmetric])
  also have "\<dots> = scan_types ?h mute_gamepad (1 # ([2] @ 3 # ([4..<31] @ []))) (?F ?S2) []"
    by (rule scan_types_skip_unset [OF ev2 types]) auto
  also have "\<dots> = scan_types ?h mute_gamepad ([2] @ 3 # ([4..<31] @ [])) (?F ?S2)
      ([] @ [(PyLong (int 1), PyList [])])"
    by (rule scan_types_step [OF _ ev2 m k1 c]) (simp_all add: bit_set_iff)
  also have "\<dots> = scan_types ?h mute_gamepad (3 # ([4..<31] @ [])) (?F ?S2) [(PyLong 1, PyList [])]"
    using scan_types_skip_unset [OF ev2 types, of "[2]"] by simp
  also have "\<dots> = scan_types ?h mute_gamepad ([4..<31] @ []) (?F ?S2)
      ([(PyLong 1, PyList [])] @ [(PyLong (int 3), PyList [])])"
    by (rule scan_types_step [OF _ ev2 m k3 c]) (simp_all add: bit_set_iff)
  also have "\<dots> = scan_types ?h mute_gamepad [] (?F ?S2)
      [(PyLong 1, PyList []), (PyLong 3, PyList [])]"
    using scan_types_skip_unset [OF ev2 types, of "[4..<31]"] by simp
  finally have run: "scan_types ?h mute_gamepad [0..<EV_MAX ?h] (?F ?S2) []
      = Some [(PyLong 1, PyList []), (PyLong 3, PyList [])]"
    by simp
  show ?thesis
    by (simp only: ioctl_capabilities_eval [OF f1 reply0 f2] run option.map)
qed

subsection \<open>Buffer sizes\<close>

text \<open>
  The scan of \<open>get_sw_led_snd\<close> rounds its buffer up and stays inside it: it has a result
  with no memory but the array.
\<close>

lemma scan_bits_defined:
  "\<forall>i\<in>set is. test_bit bytes (int i) \<noteq> None \<Longrightarrow> scan_bits bytes is res \<noteq> None"
  by (induction "is" arbitrary: res) (auto split: option.splits)

lemma get_sw_led_snd_in_bounds: "get_sw_led_snd h dev evtype \<noteq> None"
proof -
  have sc: "scan_bits (ioctl_out reply ((n + 7) div 8) (replicate ((n + 7) div 8) 0))
          [0..<n] [] \<noteq> None" for reply n
  proof (rule scan_bits_defined, rule ballI)
    fix i assume "i \<in> set [0..<n]"
    then have "i div 8 < (n + 7) div 8" by (simp add: rounded_up_holds_every_bit)
    also have "\<dots> \<le> length (ioctl_out reply ((n + 7) div 8) (replicate ((n + 7) div 8) 0))"
      using length_ioctl_out [of "replicate ((n + 7) div 8) 0" reply "(n + 7) div 8"] by simp
    finally show "test_bit (ioctl_out reply ((n + 7) div 8) (replicate ((n + 7) div 8) 0)) (int i)
        \<noteq> None"
      by (simp add: test_bit_nat)
  qed
  show ?thesis
    by (simp add: get_sw_led_snd_def Let_def sc split: option.splits)
qed

text \<open>
  C1. Buffer sizes. The claim asks that \<open>ev_bits\<close> and \<open>code_bits\<close> hold \<open>EV_MAX\<close> and
  \<open>KEY_MAX\<close> bits, rounded up to whole bytes, so that every probe of the scans satisfies
  \<open>index/8 < length buffer\<close>. The arrays are declared with \<open>EV_MAX/8\<close> and \<open>KEY_MAX/8\<close>
  elements, rounded down: 3 and 95 bytes where 4 and 96 are needed. The type scan reaches
  index 24 and the code scan index 760, whose byte is the first one behind the array. With
  a frame that ends with \<open>ev_bits\<close> and a kernel that copies three bytes, the enumeration
  leaves the memory it has.
\<close>

theorem capability_buffers_one_byte_short:
  "sizeof_ev_bits linux_input_h = 3 \<and> (EV_MAX linux_input_h + 7) div 8 = 4
   \<and> 24 \<in> set [0..<EV_MAX linux_input_h]
   \<and> test_bit (replicate (sizeof_ev_bits linux_input_h) 0) 24 = None
   \<and> sizeof_code_bits linux_input_h = 95 \<and> (KEY_MAX linux_input_h + 7) div 8 = 96
   \<and> 760 \<in> set [0..<KEY_MAX linux_input_h]
   \<and> test_bit (replicate (sizeof_code_bits linux_input_h) 0) 760 = None
   \<and> ioctl_capabilities linux_input_h (unplugged\<lparr>EVIOCGBIT := (\<lambda>ev len. Inr [0, 0, 0])\<rparr>)
        arrays_only = None"
proof -
  let ?h = linux_input_h
  let ?dev = "unplugged\<lparr>EVIOCGBIT := (\<lambda>ev len. Inr [0, 0, 0])\<rparr>"
  let ?F = "\<lparr>stack = replicate 119 0xFF @ [0, 0, 0], above = None,
             ev_bits_at = 119, code_bits_at = 24, absinfo_at = 0\<rparr>"
  have sizes: "sizeof_ev_bits ?h = 3" "(EV_MAX ?h + 7) div 8 = 4"
    "sizeof_code_bits ?h = 95" "(KEY_MAX ?h + 7) div 8 = 96"
    by (simp_all add: linux_input_h_def sizeof_ev_bits_def sizeof_code_bits_def)
  have mem: "24 \<in> set [0..<EV_MAX ?h]" "760 \<in> set [0..<KEY_MAX ?h]"
    by (simp_all add: linux_input_h_def)
  have probes: "test_bit (replicate (sizeof_ev_bits ?h) 0) 24 = None"
    "test_bit (replicate (sizeof_code_bits ?h) 0) 760 = None"
    by (simp_all add: sizes test_bit_def)
  have at: "ev_bits_at arrays_only = 119" by (simp add: arrays_only_def)
  have f1: "poke arrays_only (ev_bits_at arrays_only) (replicate (sizeof_ev_bits ?h) 0) = Some ?F"
    unfolding at linux_sizes by code_simp
  have reply: "EVIOCGBIT ?dev 0 (EV_MAX ?h) = Inr [0, 0, 0]"
    by simp
  have f2: "poke ?F (ev_bits_at arrays_only) (take (EV_MAX ?h) [0, 0, 0]) = Some ?F"
    unfolding at linux_sizes by code_simp
  have view: "load ?F (ev_bits_at ?F) (reach (EV_MAX ?h)) = [0, 0, 0]"
    by (simp add: load_def linux_sizes)
  have split: "[0..<31] = [0..<24] @ 24 # [25..<31]"
    by code_simp
  have "scan_types ?h ?dev ([0..<24] @ 24 # [25..<31]) ?F [] = None"
  proof (rule scan_types_undefined)
    show "\<forall>t\<in>set [0..<24]. t div 8 < length (load ?F (ev_bits_at ?F) (reach (EV_MAX ?h)))
            \<and> \<not> bit_set (load ?F (ev_bits_at ?F) (reach (EV_MAX ?h))) t"
      unfolding view by (auto simp: bit_set_iff nth_Cons split: nat.splits)
    show "length (load ?F (ev_bits_at ?F) (reach (EV_MAX ?h))) \<le> 24 div 8"
      unfolding view by simp
  qed
  then have "scan_types ?h ?dev [0..<EV_MAX ?h] ?F [] = None"
    by (simp only: linux_sizes split)
  then have "ioctl_capabilities ?h ?dev arrays_only = None"
    by (simp only: ioctl_capabilities_eval [OF f1 reply f2] option.map)
  with sizes mem probes show ?thesis by (intro conjI)
qed

subsection \<open>Shape and order of the result\<close>



subsection \<open>Error policy\<close>

text \<open>
  C7. Error policy of the enumeration. In a frame in mapped memory, whatever its layout:
  a failing first \<open>EVIOCGBIT\<close> raises the OS error, and when the first call succeeds the
  enumeration returns a dictionary, whatever the calls inside the two loops do, in
  particular when each of them fails. In every frame, an error that the enumeration raises
  is the OS error of the first call.
\<close>

theorem ioctl_capabilities_error_policy:
  "(\<forall>e. EVIOCGBIT dev 0 (EV_MAX h) = Inl e \<longrightarrow>
      ioctl_capabilities h dev (frm\<lparr>above := Some b\<rparr>) = Some (Inl (IOError e)))
   \<and> (\<forall>bs. EVIOCGBIT dev 0 (EV_MAX h) = Inr bs \<longrightarrow>
        (\<exists>kvs. ioctl_capabilities h dev (frm\<lparr>above := Some b\<rparr>) = Some (Inr (PyDict kvs))))
   \<and> (\<forall>x. ioctl_capabilities h dev frm = Some (Inl x) \<longrightarrow>
        (\<exists>e. EVIOCGBIT dev 0 (EV_MAX h) = Inl e \<and> x = IOError e))
   \<and> (\<forall>bs e e'. \<exists>kvs.
        ioctl_capabilities h
          (dev\<lparr>EVIOCGBIT := (\<lambda>ev len. if ev = 0 \<and> len = EV_MAX h then Inr bs else Inl e),
               EVIOCGABS := (\<lambda>c. Inl e')\<rparr>) (frm\<lparr>above := Some b\<rparr>)
        = Some (Inr (PyDict kvs)))"
proof (intro conjI allI impI)
  let ?frm = "frm\<lparr>above := Some b\<rparr>"
  have mapped: "above ?frm = Some b" by simp
  {
    fix e assume "EVIOCGBIT dev 0 (EV_MAX h) = Inl e"
    moreover from poke_mapped [OF mapped] obtain f1 where
      "poke ?frm (ev_bits_at ?frm) (replicate (sizeof_ev_bits h) 0) = Some f1" by blast
    ultimately show "ioctl_capabilities h dev ?frm = Some (Inl (IOError e))"
      by (simp add: ioctl_capabilities_def)
  next
    fix bs assume "EVIOCGBIT dev 0 (EV_MAX h) = Inr bs"
    with mapped show "\<exists>kvs. ioctl_capabilities h dev ?frm = Some (Inr (PyDict kvs))"
      by (rule ioctl_capabilities_returns)
  next
    fix x assume x: "ioctl_capabilities h dev frm = Some (Inl x)"
    show "\<exists>e. EVIOCGBIT dev 0 (EV_MAX h) = Inl e \<and> x = IOError e"
    proof (cases "EVIOCGBIT dev 0 (EV_MAX h)")
      case (Inl e)
      with x show ?thesis by (auto simp: ioctl_capabilities_def split: option.splits)
    next
      case (Inr bs)
      with x show ?thesis by (auto simp: ioctl_capabilities_def split: option.splits)
    qed
  next
    fix bs e e'
    let ?dev = "dev\<lparr>EVIOCGBIT := (\<lambda>ev len. if ev = 0 \<and> len = EV_MAX h then Inr bs else Inl e),
                   EVIOCGABS := (\<lambda>c. Inl e')\<rparr>"
    have "EVIOCGBIT ?dev 0 (EV_MAX h) = Inr bs" by simp
    with mapped show "\<exists>kvs. ioctl_capabilities h ?dev ?frm = Some (Inr (PyDict kvs))"
      by (rule ioctl_capabilities_returns)
  }
qed

theorem ioctl_capabilities_error_policy_witness:
  "EVIOCGBIT unplugged 0 (EV_MAX linux_input_h) = Inl 19
   \<and> ioctl_capabilities linux_input_h unplugged packed_frame = Some (Inl (IOError 19))
   \<and> EVIOCGBIT mute_gamepad 0 (EV_MAX linux_input_h) = Inr [0x0A, 0, 0, 0, 0, 0, 0, 0]
   \<and> EVIOCGBIT mute_gamepad 1 (KEY_MAX linux_input_h) = Inl 22
   \<and> EVIOCGBIT mute_gamepad 3 (KEY_MAX linux_input_h) = Inl 22
   \<and> EVIOCGABS mute_gamepad 0 = Inl 19
   \<and> (\<exists>kvs. ioctl_capabilities linux_input_h mute_gamepad packed_frame = Some (Inr (PyDict kvs)))
   \<and> ioctl_capabilities linux_input_h mute_gamepad packed_frame =
       Some (Inr (PyDict [(PyLong 1, PyList []), (PyLong 3, PyList [])]))
   \<and> (\<exists>kvs. ioctl_capabilities linux_input_h gamepad roomy_frame = Some (Inr (PyDict kvs)))"
proof -
  let ?h = linux_input_h
  have pf: "packed_frame\<lparr>above := Some 0\<rparr> = packed_frame"
    by (simp add: packed_frame_def)
  have rf: "roomy_frame\<lparr>above := Some 0\<rparr> = roomy_frame"
    by (simp add: roomy_frame_def)
  have a: "EVIOCGBIT unplugged 0 (EV_MAX ?h) = Inl 19"
    by (simp add: unplugged_def)
  have b: "EVIOCGBIT mute_gamepad 0 (EV_MAX ?h) = Inr [0x0A, 0, 0, 0, 0, 0, 0, 0]"
    by (simp add: mute_gamepad_def linux_input_h_def)
  have c: "EVIOCGBIT gamepad 0 (EV_MAX ?h) = Inr [0x0A, 0, 0, 0, 0, 0, 0, 0]"
    by (simp add: gamepad_def linux_input_h_def)
  from ioctl_capabilities_error_policy
    [where dev = unplugged and h = ?h and frm = packed_frame and b = 0, unfolded pf] a
  have 1: "ioctl_capabilities ?h unplugged packed_frame = Some (Inl (IOError 19))"
    by blast
  from ioctl_capabilities_error_policy
    [where dev = mute_gamepad and h = ?h and frm = packed_frame and b = 0, unfolded pf] b
  have 2: "\<exists>kvs. ioctl_capabilities ?h mute_gamepad packed_frame = Some (Inr (PyDict kvs))"
    by blast
  from ioctl_capabilities_error_policy
    [where dev = gamepad and h = ?h and frm = roomy_frame and b = 0, unfolded rf] c
  have 4: "\<exists>kvs. ioctl_capabilities ?h gamepad roomy_frame = Some (Inr (PyDict kvs))"
    by blast
  have 3: "EVIOCGBIT mute_gamepad 1 (KEY_MAX ?h) = Inl 22"
    "EVIOCGBIT mute_gamepad 3 (KEY_MAX ?h) = Inl 22"
    "EVIOCGABS mute_gamepad 0 = Inl 19"
    by (simp_all add: mute_gamepad_def unplugged_def)
  from a 1 b 3 2 mute_gamepad_packed_capabilities 4 show ?thesis by (intro conjI)
qed

end
